theory Spec2Isabelle
  imports Complex_Main
begin

section \<open>Numbers: float64 values\<close>

text \<open>
  The histogram computes with Go's \<^verbatim>\<open>float64\<close>, the binary64 format of IEEE 754. A value
  is a finite real, one of the two infinities, or NaN. Every arithmetic operation on finite
  values returns the exact result rounded to the nearest binary64 number, ties to the even
  significand, with gradual underflow and with overflow to an infinity; each operation is
  rounded on its own (no fused multiply-add). NaN and the infinities arise and propagate
  as in IEEE 754: \<open>0/0\<close> is NaN, \<open>x/0\<close> is an infinity with the sign of \<open>x\<close>, every
  comparison with NaN is false. Zero is unsigned: the sign of a zero could only show in a
  division by a negative zero, and the divisors of this program (a sum of two weights, the
  total) are negative zero only where the dividend is a zero or NaN as well.
\<close>

datatype float64 = Finite real | PInf | NInf | NaN

fun fneg :: "float64 \<Rightarrow> float64" where
  "fneg (Finite a) = Finite (- a)"
| "fneg PInf = NInf"
| "fneg NInf = PInf"
| "fneg NaN = NaN"

text \<open>
  Rounding. For \<open>x > 0\<close>, \<open>exponent x\<close> is the binary exponent \<open>e\<close> of \<open>x\<close>, that is
  \<open>2 ^ e \<le> x < 2 ^ (e + 1)\<close>, but never below \<open>-1022\<close>, the exponent of the subnormal
  numbers. It is found by halving or doubling, in steps of 64 binary places while that is
  possible. The binary64 numbers with this exponent are the multiples of
  \<open>2 ^ (e - 52)\<close>; \<open>x\<close> is rounded to the nearest multiple, and to the even one when two are
  equally near. A result of \<open>2 ^ 1024\<close> or more is an infinity.
\<close>

function expo_up :: "real \<Rightarrow> int \<Rightarrow> int" where
  "expo_up x e =
     (if 2 ^ 64 \<le> x then expo_up (x / 2 ^ 64) (e + 64)
      else if 2 \<le> x then expo_up (x / 2) (e + 1)
      else e)"
  by pat_completeness auto
termination
proof (relation "measure (\<lambda>(x, e). nat \<lfloor>x\<rfloor>)")
  show "wf (measure (\<lambda>(x, e). nat \<lfloor>x\<rfloor>))" by simp
next
  fix x :: real and e :: int
  assume a: "2 ^ 64 \<le> x"
  have "(2::real) \<le> 2 ^ 64" by simp
  from this a have b: "2 \<le> x" by (rule order_trans)
  then have "x / 2 ^ 64 \<le> x / 2" by (intro divide_left_mono) simp_all
  also have "x / 2 \<le> x - 1" using b by simp
  finally have "\<lfloor>x / 2 ^ 64\<rfloor> \<le> \<lfloor>x - 1\<rfloor>" by (rule floor_mono)
  moreover have "0 < \<lfloor>x\<rfloor>" using b by linarith
  ultimately show "((x / 2 ^ 64, e + 64), (x, e)) \<in> measure (\<lambda>(x, e). nat \<lfloor>x\<rfloor>)"
    by simp
next
  fix x :: real and e :: int
  assume "2 \<le> x"
  then have "x / 2 \<le> x - 1" by simp
  then have "\<lfloor>x / 2\<rfloor> \<le> \<lfloor>x - 1\<rfloor>" by (rule floor_mono)
  moreover have "0 < \<lfloor>x\<rfloor>" using \<open>2 \<le> x\<close> by linarith
  ultimately show "((x / 2, e + 1), (x, e)) \<in> measure (\<lambda>(x, e). nat \<lfloor>x\<rfloor>)"
    by simp
qed

function expo_down :: "real \<Rightarrow> int \<Rightarrow> int" where
  "expo_down x e =
     (if x < 1 / 2 ^ 64 \<and> - 958 \<le> e then expo_down (2 ^ 64 * x) (e - 64)
      else if x < 1 \<and> - 1022 < e then expo_down (2 * x) (e - 1)
      else e)"
  by pat_completeness auto
termination
  by (relation "measure (\<lambda>(x, e). nat (e + 1022))") auto

declare expo_up.simps [simp del] expo_down.simps [simp del]

definition exponent :: "real \<Rightarrow> int" where
  "exponent x = (if 1 \<le> x then expo_up x 0 else expo_down x 0)"

definition pow2 :: "int \<Rightarrow> real" where
  "pow2 e = (if 0 \<le> e then 2 ^ nat e else 1 / 2 ^ nat (- e))"

definition round_even :: "real \<Rightarrow> int" where
  "round_even y =
     (let f = \<lfloor>y\<rfloor>; d = y - of_int f
      in if d < 1 / 2 then f else if 1 / 2 < d then f + 1 else if even f then f else f + 1)"

definition round_pos :: "real \<Rightarrow> float64" where
  "round_pos x =
     (let q = pow2 (exponent x - 52); r = of_int (round_even (x / q)) * q
      in if pow2 1024 \<le> r then PInf else Finite r)"

definition round64 :: "real \<Rightarrow> float64" where
  "round64 x = (if x = 0 then Finite 0 else if 0 < x then round_pos x else fneg (round_pos (- x)))"

fun fadd :: "float64 \<Rightarrow> float64 \<Rightarrow> float64" where
  "fadd (Finite a) (Finite b) = round64 (a + b)"
| "fadd NaN _ = NaN"
| "fadd _ NaN = NaN"
| "fadd PInf NInf = NaN"
| "fadd NInf PInf = NaN"
| "fadd PInf _ = PInf"
| "fadd _ PInf = PInf"
| "fadd NInf _ = NInf"
| "fadd _ NInf = NInf"

definition fsub :: "float64 \<Rightarrow> float64 \<Rightarrow> float64" where
  "fsub a b = fadd a (fneg b)"

text \<open>The infinity with the sign of a nonzero real; an infinity times zero is NaN.\<close>

definition inf_of_sign :: "real \<Rightarrow> float64" where
  "inf_of_sign s = (if s = 0 then NaN else if 0 < s then PInf else NInf)"

fun fmul :: "float64 \<Rightarrow> float64 \<Rightarrow> float64" where
  "fmul (Finite a) (Finite b) = round64 (a * b)"
| "fmul NaN _ = NaN"
| "fmul _ NaN = NaN"
| "fmul (Finite a) PInf = inf_of_sign a"
| "fmul (Finite a) NInf = inf_of_sign (- a)"
| "fmul PInf (Finite b) = inf_of_sign b"
| "fmul NInf (Finite b) = inf_of_sign (- b)"
| "fmul PInf PInf = PInf"
| "fmul PInf NInf = NInf"
| "fmul NInf PInf = NInf"
| "fmul NInf NInf = PInf"

fun fdiv :: "float64 \<Rightarrow> float64 \<Rightarrow> float64" where
  "fdiv (Finite a) (Finite b) = (if b = 0 then inf_of_sign a else round64 (a / b))"
| "fdiv NaN _ = NaN"
| "fdiv _ NaN = NaN"
| "fdiv (Finite a) PInf = Finite 0"
| "fdiv (Finite a) NInf = Finite 0"
| "fdiv PInf (Finite b) = (if 0 \<le> b then PInf else NInf)"
| "fdiv NInf (Finite b) = (if 0 \<le> b then NInf else PInf)"
| "fdiv PInf PInf = NaN"
| "fdiv PInf NInf = NaN"
| "fdiv NInf PInf = NaN"
| "fdiv NInf NInf = NaN"

text \<open>Go's comparisons of float64 values: equal, less, less or equal, greater.\<close>

fun feq :: "float64 \<Rightarrow> float64 \<Rightarrow> bool" where
  "feq (Finite a) (Finite b) = (a = b)"
| "feq PInf PInf = True"
| "feq NInf NInf = True"
| "feq _ _ = False"

fun flt :: "float64 \<Rightarrow> float64 \<Rightarrow> bool" where
  "flt (Finite a) (Finite b) = (a < b)"
| "flt NaN _ = False"
| "flt _ NaN = False"
| "flt NInf NInf = False"
| "flt NInf _ = True"
| "flt PInf _ = False"
| "flt _ PInf = True"
| "flt _ NInf = False"

definition fle :: "float64 \<Rightarrow> float64 \<Rightarrow> bool" where
  "fle a b = (flt a b \<or> feq a b)"

definition fgt :: "float64 \<Rightarrow> float64 \<Rightarrow> bool" where
  "fgt a b = flt b a"

section \<open>Data model\<close>

text \<open>
  Modelled from the spec: the type \<^verbatim>\<open>Bin\<close> is declared outside
  \<^verbatim>\<open>weightedhistogram.go\<close>. The spec describes it as a plain container of two numeric
  fields, a representative value and an accumulated weight, both float64; the source reads
  and writes them as \<^verbatim>\<open>Value\<close> and \<^verbatim>\<open>Count\<close>.
\<close>

record Bin =
  Value :: float64
  Count :: float64

record WeightedHistogram =
  Bins :: "Bin list"
  Maxbins :: int
  Total :: float64
  Alpha :: float64

text \<open>A run-time panic of the Go program: an index outside the slice.\<close>

datatype error = IndexOutOfRange

section \<open>Operations\<close>

definition NewWeightedHistogram :: "int \<Rightarrow> float64 \<Rightarrow> WeightedHistogram" where
  "NewWeightedHistogram n alpha = \<lparr>Bins = [], Maxbins = n, Total = Finite 0, Alpha = alpha\<rparr>"

definition ewma :: "float64 \<Rightarrow> float64 \<Rightarrow> float64 \<Rightarrow> float64" where
  "ewma existingVal newVal alpha =
     fadd (fmul newVal (fsub (Finite 1) alpha)) (fmul existingVal alpha)"

text \<open>\<^verbatim>\<open>scaleDown\<close>: the loop over the indices, starting at index \<open>i\<close>.\<close>

fun scaleDown_from :: "nat \<Rightarrow> float64 \<Rightarrow> nat \<Rightarrow> Bin list \<Rightarrow> Bin list" where
  "scaleDown_from i alpha except [] = []"
| "scaleDown_from i alpha except (b # bs) =
     (if i \<noteq> except then b\<lparr>Count := ewma (Count b) (Finite 0) alpha\<rparr> else b)
       # scaleDown_from (Suc i) alpha except bs"

definition scaleDown :: "WeightedHistogram \<Rightarrow> nat \<Rightarrow> WeightedHistogram" where
  "scaleDown h except = h\<lparr>Bins := scaleDown_from 0 (Alpha h) except (Bins h)\<rparr>"

text \<open>
  \<^verbatim>\<open>trim\<close>. The inner loop looks for the closest pair of neighbours: \<open>closest bs i d k\<close>
  is at index \<open>i\<close>, \<open>bs\<close> starts with the bin at index \<open>i - 1\<close>, and \<open>d\<close>, \<open>k\<close> are
  \<^verbatim>\<open>minDelta\<close> and \<^verbatim>\<open>minDeltaIndex\<close>. The loop of \<^verbatim>\<open>trim\<close> starts the search at
  index \<open>1\<close> with \<^verbatim>\<open>minDelta := 1e99\<close>, the binary64 number nearest to \<open>10 ^ 99\<close>, and
  \<^verbatim>\<open>minDeltaIndex := 0\<close>.
\<close>

definition lit_1e99 :: float64 where
  "lit_1e99 = round64 (10 ^ 99)"

fun closest :: "Bin list \<Rightarrow> nat \<Rightarrow> float64 \<Rightarrow> nat \<Rightarrow> nat" where
  "closest (a # b # bs) i minDelta minDeltaIndex =
     (let delta = fsub (Value b) (Value a)
      in if flt delta minDelta then closest (b # bs) (Suc i) delta i
         else closest (b # bs) (Suc i) minDelta minDeltaIndex)"
| "closest bs i minDelta minDeltaIndex = minDeltaIndex"

text \<open>
  Merging the bins at \<open>k - 1\<close> and \<open>k\<close>. With \<open>k = 0\<close> the source reads
  \<^verbatim>\<open>h.Bins[-1]\<close> and panics.
\<close>

definition merge_at :: "Bin list \<Rightarrow> nat \<Rightarrow> error + Bin list" where
  "merge_at bs k =
     (if k = 0 \<or> length bs \<le> k then Inl IndexOutOfRange
      else
        let a = bs ! (k - 1); b = bs ! k;
            totalCount = fadd (Count a) (Count b);
            mergedbin = \<lparr>Value = fdiv (fadd (fmul (Value a) (Count a)) (fmul (Value b) (Count b)))
                                    totalCount,
                         Count = totalCount\<rparr>
        in Inr (take (k - 1) bs @ mergedbin # drop (k + 1) bs))"

function trim_loop :: "int \<Rightarrow> Bin list \<Rightarrow> error + Bin list" where
  "trim_loop maxbins bs =
     (if maxbins < int (length bs) then
        (case merge_at bs (closest bs 1 lit_1e99 0) of
           Inl e \<Rightarrow> Inl e
         | Inr bs' \<Rightarrow> trim_loop maxbins bs')
      else Inr bs)"
  by pat_completeness auto
termination
  by (relation "measure (\<lambda>(maxbins, bs). length bs)")
     (auto simp: merge_at_def Let_def split: if_splits)

declare trim_loop.simps [simp del]

definition sum_counts :: "Bin list \<Rightarrow> float64" where
  "sum_counts bs = foldl (\<lambda>total b. fadd total (Count b)) (Finite 0) bs"

definition trim :: "WeightedHistogram \<Rightarrow> error + WeightedHistogram" where
  "trim h =
     (let total = sum_counts (Bins h)
      in case trim_loop (Maxbins h) (Bins h) of
           Inl e \<Rightarrow> Inl e
         | Inr bs \<Rightarrow> Inr (h\<lparr>Bins := bs, Total := total\<rparr>))"

text \<open>
  \<^verbatim>\<open>Add\<close>. The scan stops at the first bin whose value equals the sample or exceeds it.
  The deferred calls run in reverse order of their registration: \<^verbatim>\<open>scaleDown\<close> first,
  then \<^verbatim>\<open>trim\<close>; the path that appends at the end defers \<^verbatim>\<open>trim\<close> only.
  \<open>Add_body\<close> is the insertion with the deferred \<^verbatim>\<open>scaleDown\<close>; \<open>Add\<close> runs the deferred
  \<^verbatim>\<open>trim\<close> on its result.
\<close>

datatype place = Equal nat | Greater nat | NotFound

fun Add_scan :: "float64 \<Rightarrow> nat \<Rightarrow> Bin list \<Rightarrow> place" where
  "Add_scan n i [] = NotFound"
| "Add_scan n i (b # bs) =
     (if feq (Value b) n then Equal i
      else if fgt (Value b) n then Greater i
      else Add_scan n (Suc i) bs)"

definition Add_body :: "WeightedHistogram \<Rightarrow> float64 \<Rightarrow> WeightedHistogram" where
  "Add_body h n =
     (case Add_scan n 0 (Bins h) of
        Equal i \<Rightarrow>
          scaleDown
            (h\<lparr>Bins := (Bins h)[i := (Bins h ! i)\<lparr>Count := fadd (Count (Bins h ! i)) (Finite 1)\<rparr>]\<rparr>) i
      | Greater i \<Rightarrow>
          scaleDown
            (h\<lparr>Bins := (take i (Bins h) @ [\<lparr>Value = n, Count = Finite 1\<rparr>]) @ drop i (Bins h)\<rparr>) i
      | NotFound \<Rightarrow> h\<lparr>Bins := Bins h @ [\<lparr>Value = n, Count = Finite 1\<rparr>]\<rparr>)"

definition Add :: "WeightedHistogram \<Rightarrow> float64 \<Rightarrow> error + WeightedHistogram" where
  "Add h n = trim (Add_body h n)"

text \<open>A sequence of insertions; a panic ends it.\<close>

fun Add_all :: "WeightedHistogram \<Rightarrow> float64 list \<Rightarrow> error + WeightedHistogram" where
  "Add_all h [] = Inr h"
| "Add_all h (n # ns) = (case Add h n of Inl e \<Rightarrow> Inl e | Inr h' \<Rightarrow> Add_all h' ns)"

fun Quantile_loop :: "float64 \<Rightarrow> Bin list \<Rightarrow> float64" where
  "Quantile_loop count [] = Finite (- 1)"
| "Quantile_loop count (b # bs) =
     (let count' = fsub count (Count b)
      in if fle count' (Finite 0) then Value b else Quantile_loop count' bs)"

definition Quantile :: "WeightedHistogram \<Rightarrow> float64 \<Rightarrow> float64" where
  "Quantile h q = Quantile_loop (fmul q (Total h)) (Bins h)"

definition CDF :: "WeightedHistogram \<Rightarrow> float64 \<Rightarrow> float64" where
  "CDF h x =
     fdiv (foldl (\<lambda>count b. if fle (Value b) x then fadd count (Count b) else count)
             (Finite 0) (Bins h))
          (Total h)"

definition Mean :: "WeightedHistogram \<Rightarrow> float64" where
  "Mean h =
     (if feq (Total h) (Finite 0) then Finite 0
      else fdiv (foldl (\<lambda>sum b. fadd sum (fmul (Value b) (Count b))) (Finite 0) (Bins h))
                (Total h))"

definition Variance :: "WeightedHistogram \<Rightarrow> float64" where
  "Variance h =
     (if feq (Total h) (Finite 0) then Finite 0
      else
        let mean = Mean h
        in fdiv (foldl (\<lambda>sum b. fadd sum
                          (fmul (fmul (Count b) (fsub (Value b) mean)) (fsub (Value b) mean)))
                   (Finite 0) (Bins h))
                (Total h))"

section \<open>Predicates on bins and histograms\<close>

definition is_finite :: "float64 \<Rightarrow> bool" where
  "is_finite x = (case x of Finite r \<Rightarrow> True | _ \<Rightarrow> False)"

definition finite_values :: "Bin list \<Rightarrow> bool" where
  "finite_values bs = (\<forall>b\<in>set bs. is_finite (Value b))"

definition positive_weights :: "Bin list \<Rightarrow> bool" where
  "positive_weights bs = (\<forall>b\<in>set bs. flt (Finite 0) (Count b))"

definition strictly_sorted :: "Bin list \<Rightarrow> bool" where
  "strictly_sorted bs = sorted_wrt (\<lambda>a b. flt (Value a) (Value b)) bs"

definition ascending :: "Bin list \<Rightarrow> bool" where
  "ascending bs = sorted_wrt (\<lambda>a b. fle (Value a) (Value b)) bs"

text \<open>
  The words of the spec for \<^verbatim>\<open>Quantile\<close>: the cumulative weight of all bins up to and
  including the one at index \<open>i\<close>, summed in float64 from the left, and whether it
  reaches or exceeds \<open>q * totalWeight\<close>.
\<close>

definition cumulative :: "Bin list \<Rightarrow> nat \<Rightarrow> float64" where
  "cumulative bs i = sum_counts (take (Suc i) bs)"

definition reaches :: "WeightedHistogram \<Rightarrow> float64 \<Rightarrow> nat \<Rightarrow> bool" where
  "reaches h q i = fle (fmul q (Total h)) (cumulative (Bins h) i)"

text \<open>
  What the loop of \<^verbatim>\<open>Quantile\<close> tests instead: the running remainder, the start value
  minus the weights of the bins up to and including the one at index \<open>i\<close>, subtracted one
  after the other, and whether it has dropped to zero or below.
\<close>

definition running :: "float64 \<Rightarrow> Bin list \<Rightarrow> nat \<Rightarrow> float64" where
  "running c bs i = foldl (\<lambda>count b. fsub count (Count b)) c (take (Suc i) bs)"

definition remainder :: "WeightedHistogram \<Rightarrow> float64 \<Rightarrow> nat \<Rightarrow> float64" where
  "remainder h q i = running (fmul q (Total h)) (Bins h) i"

definition drops :: "WeightedHistogram \<Rightarrow> float64 \<Rightarrow> nat \<Rightarrow> bool" where
  "drops h q i = fle (remainder h q i) (Finite 0)"

text \<open>
  The difference \<^verbatim>\<open>delta\<close> that \<^verbatim>\<open>trim\<close> computes for the neighbours at indices \<open>j\<close>
  and \<open>j + 1\<close>.
\<close>

definition gap :: "Bin list \<Rightarrow> nat \<Rightarrow> float64" where
  "gap bs j = fsub (Value (bs ! Suc j)) (Value (bs ! j))"

text \<open>
  Names for two expressions of the source: the bin \<^verbatim>\<open>scaleDown\<close> writes back at an index
  other than \<^verbatim>\<open>except\<close>, and the \<^verbatim>\<open>mergedbin\<close> of \<^verbatim>\<open>trim\<close>.
\<close>

definition decayed :: "float64 \<Rightarrow> Bin \<Rightarrow> Bin" where
  "decayed alpha b = b\<lparr>Count := ewma (Count b) (Finite 0) alpha\<rparr>"

definition merged :: "Bin \<Rightarrow> Bin \<Rightarrow> Bin" where
  "merged a b =
     \<lparr>Value = fdiv (fadd (fmul (Value a) (Count a)) (fmul (Value b) (Count b)))
                   (fadd (Count a) (Count b)),
      Count = fadd (Count a) (Count b)\<rparr>"

section \<open>Evaluating the model\<close>

text \<open>
  The equations that unfold a run of the program on concrete numbers: the rounding, the
  operations, and the predicates.
\<close>

lemmas round_defs = round64_def round_pos_def exponent_def expo_up.simps expo_down.simps
  pow2_def round_even_def lit_1e99_def

lemmas run_defs = Add_def Add_body_def NewWeightedHistogram_def trim_def scaleDown_def
  sum_counts_def trim_loop.simps merge_at_def ewma_def fsub_def fgt_def fle_def Let_def
  inf_of_sign_def Quantile_def CDF_def Mean_def Variance_def

lemmas pred_defs = is_finite_def finite_values_def positive_weights_def strictly_sorted_def
  ascending_def cumulative_def reaches_def running_def remainder_def drops_def

section \<open>Rounding and comparisons\<close>

text \<open>Rounding keeps the sign, and keeps the numbers \<open>0\<close> and \<open>1\<close>.\<close>

lemma pow2_pos: "0 < pow2 e"
  by (simp add: pow2_def)

lemma round_even_nonneg: "0 \<le> y \<Longrightarrow> 0 \<le> round_even y"
proof -
  assume "0 \<le> y"
  then have "0 \<le> \<lfloor>y\<rfloor>" by simp
  then show ?thesis by (simp add: round_even_def Let_def)
qed

lemma round_pos_nonneg:
  assumes "0 < x"
  shows "round_pos x = PInf \<or> (\<exists>r\<ge>0. round_pos x = Finite r)"
proof -
  let ?q = "pow2 (exponent x - 52)"
  have "0 \<le> x / ?q" using assms pow2_pos [of "exponent x - 52"] by simp
  then have "0 \<le> (of_int (round_even (x / ?q)) :: real) * ?q"
    using round_even_nonneg pow2_pos [of "exponent x - 52"] by simp
  then show ?thesis by (auto simp: round_pos_def Let_def)
qed

lemma round64_nonpos:
  assumes "x \<le> 0"
  shows "round64 x = NInf \<or> (\<exists>r\<le>0. round64 x = Finite r)"
proof (cases "x = 0")
  case True
  then show ?thesis by (simp add: round64_def)
next
  case False
  with assms have "0 < - x" by simp
  from round_pos_nonneg [OF this] False assms show ?thesis
    by (auto simp: round64_def)
qed

lemma round64_nonneg:
  assumes "0 \<le> x"
  shows "round64 x = PInf \<or> (\<exists>r\<ge>0. round64 x = Finite r)"
proof (cases "x = 0")
  case True
  then show ?thesis by (simp add: round64_def)
next
  case False
  with assms have "0 < x" by simp
  from round_pos_nonneg [OF this] show ?thesis by (simp add: round64_def \<open>0 < x\<close>)
qed

lemma round64_not_NaN: "round64 x \<noteq> NaN"
proof -
  have "round_pos y \<noteq> NaN" for y by (simp add: round_pos_def Let_def)
  moreover have "fneg z = NaN \<longleftrightarrow> z = NaN" for z by (cases z) simp_all
  ultimately show ?thesis by (simp add: round64_def)
qed

lemma round64_0: "round64 0 = Finite 0"
  by (simp add: round64_def)

lemma round64_1: "round64 1 = Finite 1"
  by (simp add: round_defs Let_def)

lemma fadd_0_1: "fadd (Finite 0) (Finite 1) = Finite 1"
  by (simp add: round64_1)

text \<open>The order of float64 values.\<close>

lemma flt_trans: "flt a b \<Longrightarrow> flt b c \<Longrightarrow> flt a c"
  by (cases a; cases b; cases c) simp_all

lemma flt_irrefl: "\<not> flt a a"
  by (cases a) simp_all

lemma flt_asym: "flt a b \<Longrightarrow> \<not> flt b a"
  by (cases a; cases b) simp_all

lemma flt_not_fle: "flt a b \<Longrightarrow> \<not> fle b a"
  by (cases a; cases b) (simp_all add: fle_def)

lemma fle_flt_trans: "fle a b \<Longrightarrow> flt b c \<Longrightarrow> flt a c"
  by (cases a; cases b; cases c) (auto simp: fle_def)

lemma is_finite_conv: "is_finite x \<longleftrightarrow> (\<exists>r. x = Finite r)"
  by (cases x) (simp_all add: is_finite_def)

lemma fle_Finite: "fle (Finite a) (Finite b) \<longleftrightarrow> a \<le> b"
  by (auto simp: fle_def)

lemma fle_refl_finite: "is_finite a \<Longrightarrow> fle a a"
  by (cases a) (simp_all add: is_finite_def fle_def)

lemma flt_from_scan: "a \<noteq> NaN \<Longrightarrow> b \<noteq> NaN \<Longrightarrow> \<not> feq a b \<Longrightarrow> \<not> fgt a b \<Longrightarrow> flt a b"
  by (cases a; cases b) (auto simp: fgt_def)

lemma feq_eq: "feq a n \<Longrightarrow> a = n"
  by (cases a; cases n) simp_all

section \<open>Insertion\<close>

text \<open>
  What \<^verbatim>\<open>scaleDown\<close> does to a list, and where the scan of \<^verbatim>\<open>Add\<close> stops.
\<close>

lemma scaleDown_from_past: "e < i \<Longrightarrow> scaleDown_from i alpha e bs = map (decayed alpha) bs"
  by (induction bs arbitrary: i) (simp_all add: decayed_def)

lemma scaleDown_from_split:
  "scaleDown_from i alpha (i + length xs) (xs @ y # ys)
     = map (decayed alpha) xs @ y # map (decayed alpha) ys"
proof (induction xs arbitrary: i)
  case Nil
  show ?case by (simp add: scaleDown_from_past)
next
  case (Cons x xs)
  from Cons.IH [of "Suc i"] show ?case by (simp add: decayed_def)
qed

lemma scaleDown_from_length: "length (scaleDown_from i alpha e bs) = length bs"
  by (induction bs arbitrary: i) simp_all

lemma Add_scan_NotFound:
  "Add_scan n i bs = NotFound \<Longrightarrow> \<forall>b\<in>set bs. \<not> feq (Value b) n \<and> \<not> fgt (Value b) n"
  by (induction bs arbitrary: i) (auto split: if_splits)

lemma Add_scan_Equal:
  "Add_scan n i bs = Equal k \<Longrightarrow>
   \<exists>xs y ys. bs = xs @ y # ys \<and> k = i + length xs \<and> feq (Value y) n
     \<and> (\<forall>b\<in>set xs. \<not> feq (Value b) n \<and> \<not> fgt (Value b) n)"
proof (induction bs arbitrary: i)
  case Nil
  then show ?case by simp
next
  case (Cons b bs)
  show ?case
  proof (cases "feq (Value b) n")
    case True
    with Cons.prems have "k = i" by simp
    with True have "b # bs = [] @ b # bs \<and> k = i + length ([]::Bin list) \<and> feq (Value b) n
      \<and> (\<forall>b\<in>set ([]::Bin list). \<not> feq (Value b) n \<and> \<not> fgt (Value b) n)" by simp
    then show ?thesis by blast
  next
    case False
    with Cons.prems have ng: "\<not> fgt (Value b) n" and r: "Add_scan n (Suc i) bs = Equal k"
      by (auto split: if_splits)
    from Cons.IH [OF r] obtain xs y ys where
      "bs = xs @ y # ys" "k = Suc i + length xs" "feq (Value y) n"
      "\<forall>b\<in>set xs. \<not> feq (Value b) n \<and> \<not> fgt (Value b) n" by blast
    with False ng have "b # bs = (b # xs) @ y # ys \<and> k = i + length (b # xs) \<and> feq (Value y) n
      \<and> (\<forall>b\<in>set (b # xs). \<not> feq (Value b) n \<and> \<not> fgt (Value b) n)" by simp
    then show ?thesis by blast
  qed
qed

lemma Add_scan_Greater:
  "Add_scan n i bs = Greater k \<Longrightarrow>
   \<exists>xs y ys. bs = xs @ y # ys \<and> k = i + length xs \<and> \<not> feq (Value y) n \<and> fgt (Value y) n
     \<and> (\<forall>b\<in>set xs. \<not> feq (Value b) n \<and> \<not> fgt (Value b) n)"
proof (induction bs arbitrary: i)
  case Nil
  then show ?case by simp
next
  case (Cons b bs)
  show ?case
  proof (cases "\<not> feq (Value b) n \<and> fgt (Value b) n")
    case True
    with Cons.prems have "k = i" by simp
    with True have "b # bs = [] @ b # bs \<and> k = i + length ([]::Bin list)
      \<and> \<not> feq (Value b) n \<and> fgt (Value b) n
      \<and> (\<forall>b\<in>set ([]::Bin list). \<not> feq (Value b) n \<and> \<not> fgt (Value b) n)" by simp
    then show ?thesis by blast
  next
    case False
    with Cons.prems have ne: "\<not> feq (Value b) n" and ng: "\<not> fgt (Value b) n"
      and r: "Add_scan n (Suc i) bs = Greater k"
      by (auto split: if_splits)
    from Cons.IH [OF r] obtain xs y ys where
      "bs = xs @ y # ys" "k = Suc i + length xs" "\<not> feq (Value y) n" "fgt (Value y) n"
      "\<forall>b\<in>set xs. \<not> feq (Value b) n \<and> \<not> fgt (Value b) n" by blast
    with ne ng have "b # bs = (b # xs) @ y # ys \<and> k = i + length (b # xs)
      \<and> \<not> feq (Value y) n \<and> fgt (Value y) n
      \<and> (\<forall>b\<in>set (b # xs). \<not> feq (Value b) n \<and> \<not> fgt (Value b) n)" by simp
    then show ?thesis by blast
  qed
qed

lemma decayed_Value: "Value (decayed alpha b) = Value b"
  by (simp add: decayed_def)

lemma decayed_values: "Value ` set (map (decayed alpha) bs) = Value ` set bs"
  by (auto simp: decayed_Value image_iff)

text \<open>
  The three paths of \<^verbatim>\<open>Add\<close> before \<^verbatim>\<open>trim\<close> runs: the sample equals the value of a
  bin, the sample is below the value of a bin, the sample is appended. On the first two
  every other bin is passed through \<^verbatim>\<open>ewma(Count, 0, Alpha)\<close>; on the third no bin is.
\<close>

lemma Add_body_Equal:
  assumes "Add_scan n 0 (Bins h) = Equal k"
  shows "\<exists>xs y ys. Bins h = xs @ y # ys \<and> feq (Value y) n
     \<and> (\<forall>b\<in>set xs. \<not> feq (Value b) n \<and> \<not> fgt (Value b) n)
     \<and> Add_body h n = h\<lparr>Bins := map (decayed (Alpha h)) xs
                               @ y\<lparr>Count := fadd (Count y) (Finite 1)\<rparr>
                               # map (decayed (Alpha h)) ys\<rparr>"
proof -
  from Add_scan_Equal [OF assms] obtain xs y ys where
    d: "Bins h = xs @ y # ys" "k = length xs" "feq (Value y) n"
       "\<forall>b\<in>set xs. \<not> feq (Value b) n \<and> \<not> fgt (Value b) n" by auto
  have "Add_body h n = h\<lparr>Bins := map (decayed (Alpha h)) xs
                               @ y\<lparr>Count := fadd (Count y) (Finite 1)\<rparr>
                               # map (decayed (Alpha h)) ys\<rparr>"
    using assms d scaleDown_from_split [of 0 "Alpha h" xs "y\<lparr>Count := fadd (Count y) (Finite 1)\<rparr>" ys]
    by (simp add: Add_body_def scaleDown_def)
  with d show ?thesis by blast
qed

lemma Add_body_Greater:
  assumes "Add_scan n 0 (Bins h) = Greater k"
  shows "\<exists>xs y ys. Bins h = xs @ y # ys \<and> \<not> feq (Value y) n \<and> fgt (Value y) n
     \<and> (\<forall>b\<in>set xs. \<not> feq (Value b) n \<and> \<not> fgt (Value b) n)
     \<and> Add_body h n = h\<lparr>Bins := map (decayed (Alpha h)) xs
                               @ \<lparr>Value = n, Count = Finite 1\<rparr>
                               # map (decayed (Alpha h)) (y # ys)\<rparr>"
proof -
  from Add_scan_Greater [OF assms] obtain xs y ys where
    d: "Bins h = xs @ y # ys" "k = length xs" "\<not> feq (Value y) n" "fgt (Value y) n"
       "\<forall>b\<in>set xs. \<not> feq (Value b) n \<and> \<not> fgt (Value b) n" by auto
  have "Add_body h n = h\<lparr>Bins := map (decayed (Alpha h)) xs
                               @ \<lparr>Value = n, Count = Finite 1\<rparr>
                               # map (decayed (Alpha h)) (y # ys)\<rparr>"
    using assms d scaleDown_from_split [of 0 "Alpha h" xs "\<lparr>Value = n, Count = Finite 1\<rparr>" "y # ys"]
    by (simp add: Add_body_def scaleDown_def)
  with d show ?thesis by blast
qed

lemma Add_body_NotFound:
  assumes "Add_scan n 0 (Bins h) = NotFound"
  shows "(\<forall>b\<in>set (Bins h). \<not> feq (Value b) n \<and> \<not> fgt (Value b) n)
     \<and> Add_body h n = h\<lparr>Bins := Bins h @ [\<lparr>Value = n, Count = Finite 1\<rparr>]\<rparr>"
  using assms Add_scan_NotFound [OF assms] by (simp add: Add_body_def)

lemma Add_body_fields: "Maxbins (Add_body h n) = Maxbins h \<and> Alpha (Add_body h n) = Alpha h"
  by (cases "Add_scan n 0 (Bins h)") (simp_all add: Add_body_def scaleDown_def)

lemma Add_body_length: "length (Bins (Add_body h n)) \<le> Suc (length (Bins h))"
  by (cases "Add_scan n 0 (Bins h)")
     (simp_all add: Add_body_def scaleDown_def scaleDown_from_length)

text \<open>
  C1: every insertion multiplies the weight of every bin other than the touched one by
  \<open>1 - alpha\<close>, also when the sample equals an existing value and when it is appended as
  the new maximum. The code does not: with \<open>alpha = 1/4\<close> and the single bin \<open>(1, 1)\<close>,
  appending the sample \<open>2\<close> leaves the old weight at \<open>1\<close> (the appending path never calls
  \<^verbatim>\<open>scaleDown\<close>), and inserting the sample \<open>0\<close> in front, or repeating the sample \<open>2\<close>,
  turns the old weight \<open>1\<close> into \<open>1/4 = 1 * alpha\<close>, where the claim gives \<open>3/4\<close>. All
  numbers of the three runs are binary64 numbers and no operation rounds.
\<close>

theorem Add_decay_divergence:
  "Add \<lparr>Bins = [\<lparr>Value = Finite 1, Count = Finite 1\<rparr>],
        Maxbins = 5, Total = Finite 1, Alpha = Finite (1 / 4)\<rparr> (Finite 2)
     = Inr \<lparr>Bins = [\<lparr>Value = Finite 1, Count = Finite 1\<rparr>, \<lparr>Value = Finite 2, Count = Finite 1\<rparr>],
            Maxbins = 5, Total = Finite 2, Alpha = Finite (1 / 4)\<rparr>
   \<and> Add \<lparr>Bins = [\<lparr>Value = Finite 1, Count = Finite 1\<rparr>],
          Maxbins = 5, Total = Finite 1, Alpha = Finite (1 / 4)\<rparr> (Finite 0)
     = Inr \<lparr>Bins = [\<lparr>Value = Finite 0, Count = Finite 1\<rparr>, \<lparr>Value = Finite 1, Count = Finite (1 / 4)\<rparr>],
            Maxbins = 5, Total = Finite (5 / 4), Alpha = Finite (1 / 4)\<rparr>
   \<and> Add \<lparr>Bins = [\<lparr>Value = Finite 1, Count = Finite 1\<rparr>, \<lparr>Value = Finite 2, Count = Finite 1\<rparr>],
          Maxbins = 5, Total = Finite 2, Alpha = Finite (1 / 4)\<rparr> (Finite 2)
     = Inr \<lparr>Bins = [\<lparr>Value = Finite 1, Count = Finite (1 / 4)\<rparr>, \<lparr>Value = Finite 2, Count = Finite 2\<rparr>],
            Maxbins = 5, Total = Finite (9 / 4), Alpha = Finite (1 / 4)\<rparr>"
  by (simp add: run_defs round_defs)

section \<open>Compaction\<close>

lemma split_at_pair:
  assumes "0 < k" and "k < length bs"
  shows "bs = take (k - 1) bs @ bs ! (k - 1) # bs ! k # drop (k + 1) bs"
proof -
  have "bs = take (k - 1) bs @ bs ! (k - 1) # drop (Suc (k - 1)) bs"
    using assms by (intro id_take_nth_drop) simp
  moreover have "drop k bs = bs ! k # drop (Suc k) bs"
    using assms by (simp add: Cons_nth_drop_Suc)
  ultimately show ?thesis using assms by simp
qed

lemma merge_at_Inr:
  assumes "merge_at bs k = Inr bs'"
  shows "\<exists>xs a b ys. bs = xs @ a # b # ys \<and> k = Suc (length xs) \<and> bs' = xs @ merged a b # ys"
proof -
  from assms have k: "0 < k" "k < length bs"
    by (auto simp: merge_at_def split: if_splits)
  let ?xs = "take (k - 1) bs" and ?ys = "drop (k + 1) bs"
  have "bs = ?xs @ bs ! (k - 1) # bs ! k # ?ys" using k by (rule split_at_pair)
  moreover have "k = Suc (length ?xs)" using k by simp
  moreover have "bs' = ?xs @ merged (bs ! (k - 1)) (bs ! k) # ?ys"
    using assms k by (simp add: merge_at_def merged_def Let_def)
  ultimately show ?thesis by blast
qed

text \<open>
  The loop of \<^verbatim>\<open>trim\<close> returns only a list within the bound, and leaves such a list as
  it is; \<^verbatim>\<open>trim\<close> stores the sum of the weights it finds before the loop runs.
\<close>

lemma trim_loop_length: "trim_loop m bs = Inr bs' \<Longrightarrow> int (length bs') \<le> m"
proof (induction m bs rule: trim_loop.induct)
  case (1 maxbins bs)
  show ?case
  proof (cases "maxbins < int (length bs)")
    case False
    with "1.prems" show ?thesis by (simp add: trim_loop.simps)
  next
    case True
    with "1.prems" obtain bs1 where m: "merge_at bs (closest bs 1 lit_1e99 0) = Inr bs1"
      and t: "trim_loop maxbins bs1 = Inr bs'"
      by (auto simp: trim_loop.simps [of maxbins bs] split: sum.splits)
    from "1.IH" [OF True m t] show ?thesis .
  qed
qed

lemma trim_loop_within: "int (length bs) \<le> m \<Longrightarrow> trim_loop m bs = Inr bs"
  by (simp add: trim_loop.simps)

lemma trim_Inr:
  assumes "trim h = Inr h'"
  shows "Total h' = sum_counts (Bins h) \<and> int (length (Bins h')) \<le> Maxbins h
     \<and> Maxbins h' = Maxbins h \<and> Alpha h' = Alpha h"
  using assms by (auto simp: trim_def Let_def split: sum.splits dest: trim_loop_length)

lemma trim_within:
  assumes "int (length (Bins h)) \<le> Maxbins h"
  shows "trim h = Inr (h\<lparr>Total := sum_counts (Bins h)\<rparr>)"
  using assms by (simp add: trim_def Let_def trim_loop_within)

text \<open>
  The search of \<^verbatim>\<open>trim\<close>. Either no difference is below the bound and the index stays
  where it started, or the index is that of the first pair whose difference is the smallest
  of all: no difference is below it, and every earlier one is strictly above it or NaN.
\<close>

lemma gap_Cons_Suc: "gap (a # bs) (Suc j) = gap bs j"
  by (simp add: gap_def)

lemma gaps_Cons_all:
  assumes "bs \<noteq> []"
  shows "(\<forall>j. Suc j < length (a # bs) \<longrightarrow> P (gap (a # bs) j))
     \<longleftrightarrow> (P (gap (a # bs) 0) \<and> (\<forall>j. Suc j < length bs \<longrightarrow> P (gap bs j)))"
proof -
  have "P (gap (a # bs) j)"
    if "Suc j < length (a # bs)" "P (gap (a # bs) 0)" "\<forall>j. Suc j < length bs \<longrightarrow> P (gap bs j)" for j
    using that by (cases j) (simp_all add: gap_Cons_Suc)
  moreover have "P (gap (a # bs) 0)"
    if "\<forall>j. Suc j < length (a # bs) \<longrightarrow> P (gap (a # bs) j)"
    using that [rule_format, of 0] assms by simp
  moreover have "P (gap bs j)"
    if "\<forall>j. Suc j < length (a # bs) \<longrightarrow> P (gap (a # bs) j)" "Suc j < length bs" for j
    using that(1) [rule_format, of "Suc j"] that(2) by (simp add: gap_Cons_Suc)
  ultimately show ?thesis by blast
qed

lemma closest_step:
  "closest (a # b # bs) i d k0 =
     (if flt (gap (a # b # bs) 0) d then closest (b # bs) (Suc i) (gap (a # b # bs) 0) i
      else closest (b # bs) (Suc i) d k0)"
  by (simp add: gap_def Let_def)

lemma closest_first_min:
  "(closest bs i d k0 = k0 \<and> (\<forall>j. Suc j < length bs \<longrightarrow> \<not> flt (gap bs j) d))
   \<or> (\<exists>m. Suc m < length bs \<and> closest bs i d k0 = i + m \<and> flt (gap bs m) d
         \<and> (\<forall>j. Suc j < length bs \<longrightarrow> \<not> flt (gap bs j) (gap bs m))
         \<and> (\<forall>j<m. \<not> fle (gap bs j) (gap bs m)))"
proof (induction bs arbitrary: i d k0)
  case Nil
  show ?case by simp
next
  case (Cons a bs)
  show ?case
  proof (cases bs)
    case Nil
    then show ?thesis by simp
  next
    case bs: (Cons b bs')
    then have ne: "bs \<noteq> []" by simp
    let ?g = "gap (a # bs) 0"
    note step = closest_step [of a b bs' i d k0, folded bs]
    show ?thesis
    proof (cases "flt ?g d")
      case True
      with step have c: "closest (a # bs) i d k0 = closest bs (Suc i) ?g i"
        by simp
      from Cons.IH [of "Suc i" ?g i]
      show ?thesis
      proof (elim disjE conjE exE)
        assume r: "closest bs (Suc i) ?g i = i"
          and n: "\<forall>j. Suc j < length bs \<longrightarrow> \<not> flt (gap bs j) ?g"
        from n have "\<forall>j. Suc j < length (a # bs) \<longrightarrow> \<not> flt (gap (a # bs) j) ?g"
          by (simp only: gaps_Cons_all [OF ne, where P = "\<lambda>x. \<not> flt x ?g"]) (simp add: flt_irrefl)
        with c r True ne
        have "Suc 0 < length (a # bs) \<and> closest (a # bs) i d k0 = i + 0
              \<and> flt (gap (a # bs) 0) d
              \<and> (\<forall>j. Suc j < length (a # bs) \<longrightarrow> \<not> flt (gap (a # bs) j) (gap (a # bs) 0))
              \<and> (\<forall>j<0. \<not> fle (gap (a # bs) j) (gap (a # bs) 0))"
          by simp
        then show ?thesis by blast
      next
        fix m
        assume m: "Suc m < length bs" "closest bs (Suc i) ?g i = Suc i + m"
          "flt (gap bs m) ?g" "\<forall>j. Suc j < length bs \<longrightarrow> \<not> flt (gap bs j) (gap bs m)"
          "\<forall>j<m. \<not> fle (gap bs j) (gap bs m)"
        from m(3) have "\<not> flt ?g (gap bs m)" by (rule flt_asym)
        with m(4) have "\<forall>j. Suc j < length (a # bs) \<longrightarrow> \<not> flt (gap (a # bs) j) (gap bs m)"
          by (simp only: gaps_Cons_all [OF ne, where P = "\<lambda>x. \<not> flt x (gap bs m)"]) simp
        moreover from m(3) have "\<not> fle ?g (gap bs m)" by (rule flt_not_fle)
        with m(5) have "\<forall>j<Suc m. \<not> fle (gap (a # bs) j) (gap bs m)"
          by (simp add: All_less_Suc2 gap_Cons_Suc)
        moreover from m(3) True have "flt (gap bs m) d" by (rule flt_trans)
        ultimately
        have "Suc (Suc m) < length (a # bs) \<and> closest (a # bs) i d k0 = i + Suc m
              \<and> flt (gap (a # bs) (Suc m)) d
              \<and> (\<forall>j. Suc j < length (a # bs) \<longrightarrow> \<not> flt (gap (a # bs) j) (gap (a # bs) (Suc m)))
              \<and> (\<forall>j<Suc m. \<not> fle (gap (a # bs) j) (gap (a # bs) (Suc m)))"
          using c m(1,2) by (simp add: gap_Cons_Suc)
        then show ?thesis by blast
      qed
    next
      case False
      with step have c: "closest (a # bs) i d k0 = closest bs (Suc i) d k0"
        by simp
      from Cons.IH [of "Suc i" d k0]
      show ?thesis
      proof (elim disjE conjE exE)
        assume r: "closest bs (Suc i) d k0 = k0"
          and n: "\<forall>j. Suc j < length bs \<longrightarrow> \<not> flt (gap bs j) d"
        from n False have "\<forall>j. Suc j < length (a # bs) \<longrightarrow> \<not> flt (gap (a # bs) j) d"
          by (simp only: gaps_Cons_all [OF ne, where P = "\<lambda>x. \<not> flt x d"]) simp
        with c r show ?thesis by simp
      next
        fix m
        assume m: "Suc m < length bs" "closest bs (Suc i) d k0 = Suc i + m"
          "flt (gap bs m) d" "\<forall>j. Suc j < length bs \<longrightarrow> \<not> flt (gap bs j) (gap bs m)"
          "\<forall>j<m. \<not> fle (gap bs j) (gap bs m)"
        have n1: "\<not> flt ?g (gap bs m)"
        proof
          assume "flt ?g (gap bs m)"
          from this m(3) have "flt ?g d" by (rule flt_trans)
          with False show False ..
        qed
        have n2: "\<not> fle ?g (gap bs m)"
        proof
          assume "fle ?g (gap bs m)"
          from this m(3) have "flt ?g d" by (rule fle_flt_trans)
          with False show False ..
        qed
        from n1 m(4) have "\<forall>j. Suc j < length (a # bs) \<longrightarrow> \<not> flt (gap (a # bs) j) (gap bs m)"
          by (simp only: gaps_Cons_all [OF ne, where P = "\<lambda>x. \<not> flt x (gap bs m)"]) simp
        moreover from n2 m(5) have "\<forall>j<Suc m. \<not> fle (gap (a # bs) j) (gap bs m)"
          by (simp add: All_less_Suc2 gap_Cons_Suc)
        ultimately
        have "Suc (Suc m) < length (a # bs) \<and> closest (a # bs) i d k0 = i + Suc m
              \<and> flt (gap (a # bs) (Suc m)) d
              \<and> (\<forall>j. Suc j < length (a # bs) \<longrightarrow> \<not> flt (gap (a # bs) j) (gap (a # bs) (Suc m)))
              \<and> (\<forall>j<Suc m. \<not> fle (gap (a # bs) j) (gap (a # bs) (Suc m)))"
          using c m(1,2,3) by (simp add: gap_Cons_Suc)
        then show ?thesis by blast
      qed
    qed
  qed
qed

text \<open>
  One iteration of the loop of \<^verbatim>\<open>trim\<close>: when some difference is below \<^verbatim>\<open>1e99\<close>, the
  first pair of smallest difference is replaced by one bin, whose weight is the rounded sum
  of the two weights and whose value is the weighted average as the code computes it; when
  no difference is below \<^verbatim>\<open>1e99\<close>, the iteration panics.
\<close>

lemma trim_step:
  assumes j: "Suc j < length bs" "flt (gap bs j) lit_1e99"
  shows "\<exists>xs a b ys. bs = xs @ a # b # ys
     \<and> merge_at bs (closest bs 1 lit_1e99 0) = Inr (xs @ merged a b # ys)
     \<and> (\<forall>i. Suc i < length bs \<longrightarrow> \<not> flt (gap bs i) (gap bs (length xs)))
     \<and> (\<forall>i<length xs. \<not> fle (gap bs i) (gap bs (length xs)))"
proof -
  from closest_first_min [of bs 1 lit_1e99 0] j
  obtain m where m: "Suc m < length bs" "closest bs 1 lit_1e99 0 = Suc m"
    "\<forall>i. Suc i < length bs \<longrightarrow> \<not> flt (gap bs i) (gap bs m)" "\<forall>i<m. \<not> fle (gap bs i) (gap bs m)"
    by auto
  let ?xs = "take m bs" and ?ys = "drop (Suc (Suc m)) bs"
  have s: "bs = ?xs @ bs ! m # bs ! Suc m # ?ys"
    using split_at_pair [of "Suc m" bs] m(1) by simp
  have l: "length ?xs = m" using m(1) by simp
  have "merge_at bs (Suc m) = Inr (?xs @ merged (bs ! m) (bs ! Suc m) # ?ys)"
    using m(1) by (simp add: merge_at_def merged_def Let_def)
  with s l m show ?thesis by metis
qed

lemma trim_step_panics:
  assumes "\<forall>j. Suc j < length bs \<longrightarrow> \<not> flt (gap bs j) lit_1e99"
  shows "merge_at bs (closest bs 1 lit_1e99 0) = Inl IndexOutOfRange"
proof -
  from closest_first_min [of bs 1 lit_1e99 0] assms
  have "closest bs 1 lit_1e99 0 = 0" by auto
  then show ?thesis by (simp add: merge_at_def)
qed

text \<open>
  C3: whenever compaction runs with more than \<open>maxBins\<close> bins, each iteration merges the
  adjacent pair with the smallest difference in value. The search starts from the bound
  \<^verbatim>\<open>1e99\<close>, so a pair whose gap is not below \<^verbatim>\<open>1e99\<close> is never chosen: with the two bins
  \<open>0\<close> and \<open>2e99\<close> and \<open>maxBins = 1\<close> the index stays \<open>0\<close>, the code reads the bin at
  index \<open>-1\<close> and panics instead of merging the pair. It does so for the real number
  \<open>2 * 10 ^ 99\<close>, for the binary64 number nearest to it, which is what the literal
  \<^verbatim>\<open>2e99\<close> denotes, and for a gap that equals the bound \<^verbatim>\<open>1e99\<close> itself.
\<close>

theorem trim_wide_gap_panics:
  "trim \<lparr>Bins = [\<lparr>Value = Finite 0, Count = Finite 1\<rparr>,
                 \<lparr>Value = Finite (2 * 10 ^ 99), Count = Finite 1\<rparr>],
         Maxbins = 1, Total = Finite 2, Alpha = Finite (1 / 2)\<rparr> = Inl IndexOutOfRange
   \<and> Add_all (NewWeightedHistogram 1 (Finite (1 / 2))) [Finite 0, Finite (2 * 10 ^ 99)]
     = Inl IndexOutOfRange
   \<and> Add_all (NewWeightedHistogram 1 (Finite (1 / 2))) [Finite 0, round64 (2 * 10 ^ 99)]
     = Inl IndexOutOfRange
   \<and> Add_all (NewWeightedHistogram 1 (Finite (1 / 2))) [Finite 0, lit_1e99]
     = Inl IndexOutOfRange"
  by (simp add: run_defs round_defs)

section \<open>The invariant of insertion\<close>

text \<open>
  An insertion keeps a strictly ascending list strictly ascending until \<^verbatim>\<open>trim\<close> runs, and
  the values of the bins are then the old values and the sample: no arithmetic touches a
  value on the way.
\<close>

lemma Add_body_sorted:
  assumes srt: "strictly_sorted (Bins h)" and nn: "NaN \<notin> Value ` set (Bins h)" and n: "n \<noteq> NaN"
  shows "strictly_sorted (Bins (Add_body h n))
     \<and> Value ` set (Bins (Add_body h n)) = insert n (Value ` set (Bins h))"
proof -
  let ?P = "\<lambda>a b. flt (Value a) (Value b)"
  let ?d = "decayed (Alpha h)"
  from srt have s: "sorted_wrt ?P (Bins h)" by (simp add: strictly_sorted_def)
  show ?thesis
  proof (cases "Add_scan n 0 (Bins h)")
    case (Equal k)
    from Add_body_Equal [OF Equal] obtain xs y ys where
      d: "Bins h = xs @ y # ys" "feq (Value y) n"
      and t: "Add_body h n = h\<lparr>Bins := map ?d xs @ y\<lparr>Count := fadd (Count y) (Finite 1)\<rparr>
                               # map ?d ys\<rparr>" by blast
    from d(2) have v: "Value y = n" by (rule feq_eq)
    have "sorted_wrt ?P (map ?d xs @ y\<lparr>Count := fadd (Count y) (Finite 1)\<rparr> # map ?d ys)"
      using s d(1) by (simp add: sorted_wrt_append sorted_wrt_map decayed_Value)
    moreover have "Value ` set (map ?d xs @ y\<lparr>Count := fadd (Count y) (Finite 1)\<rparr> # map ?d ys)
        = insert n (Value ` set (Bins h))"
      using d(1) v by (simp add: decayed_values image_Un del: set_map)
    ultimately show ?thesis using t by (simp add: strictly_sorted_def)
  next
    case (Greater k)
    from Add_body_Greater [OF Greater] obtain xs y ys where
      d: "Bins h = xs @ y # ys" "\<not> feq (Value y) n" "fgt (Value y) n"
         "\<forall>b\<in>set xs. \<not> feq (Value b) n \<and> \<not> fgt (Value b) n"
      and t: "Add_body h n = h\<lparr>Bins := map ?d xs @ \<lparr>Value = n, Count = Finite 1\<rparr>
                               # map ?d (y # ys)\<rparr>" by blast
    have before: "\<forall>b\<in>set xs. flt (Value b) n"
    proof
      fix b assume b: "b \<in> set xs"
      then have "b \<in> set (Bins h)" using d(1) by simp
      then have "Value b \<noteq> NaN" using nn by (metis imageI)
      from this n show "flt (Value b) n" using d(4) b by (intro flt_from_scan) simp_all
    qed
    have ny: "flt n (Value y)" using d(3) by (simp add: fgt_def)
    have after: "\<forall>b\<in>set ys. flt n (Value b)"
      using s d(1) ny by (auto simp: sorted_wrt_append intro: flt_trans)
    have "sorted_wrt ?P (map ?d xs @ \<lparr>Value = n, Count = Finite 1\<rparr> # map ?d (y # ys))"
      using s d(1) before ny after
      by (auto simp: sorted_wrt_append sorted_wrt_map decayed_Value)
    moreover have "Value ` set (map ?d xs @ \<lparr>Value = n, Count = Finite 1\<rparr> # map ?d (y # ys))
        = insert n (Value ` set (Bins h))"
      using d(1) decayed_values [of "Alpha h" xs] decayed_values [of "Alpha h" "y # ys"]
      by (simp only: set_append set_simps image_Un image_insert Bin.simps) blast
    ultimately show ?thesis using t by (simp add: strictly_sorted_def)
  next
    case NotFound
    from Add_body_NotFound [OF NotFound] have
      lt: "\<forall>b\<in>set (Bins h). \<not> feq (Value b) n \<and> \<not> fgt (Value b) n"
      and t: "Add_body h n = h\<lparr>Bins := Bins h @ [\<lparr>Value = n, Count = Finite 1\<rparr>]\<rparr>" by simp_all
    have "\<forall>b\<in>set (Bins h). flt (Value b) n"
    proof
      fix b assume b: "b \<in> set (Bins h)"
      then have "Value b \<noteq> NaN" using nn by (metis imageI)
      from this n show "flt (Value b) n" using lt b by (intro flt_from_scan) simp_all
    qed
    with s t show ?thesis by (auto simp: strictly_sorted_def sorted_wrt_append)
  qed
qed

lemma strictly_sorted_distinct: "strictly_sorted bs \<Longrightarrow> distinct (map Value bs)"
proof (induction bs)
  case Nil
  show ?case by simp
next
  case (Cons b bs)
  from Cons.prems have s: "strictly_sorted bs" and l: "\<forall>y\<in>set bs. flt (Value b) (Value y)"
    by (simp_all add: strictly_sorted_def)
  have "Value b \<notin> Value ` set bs"
  proof
    assume "Value b \<in> Value ` set bs"
    then obtain y where "y \<in> set bs" "Value y = Value b" by auto
    with l have "flt (Value b) (Value b)" by metis
    then show False by (simp add: flt_irrefl)
  qed
  with Cons.IH [OF s] show ?case by simp
qed

lemma strictly_sorted_length:
  assumes "strictly_sorted bs"
  shows "length bs = card (Value ` set bs)"
proof -
  from strictly_sorted_distinct [OF assms] have "card (set (map Value bs)) = length (map Value bs)"
    by (rule distinct_card)
  then show ?thesis by simp
qed

lemma Add_Maxbins: "Add h n = Inr h' \<Longrightarrow> Maxbins h' = Maxbins h"
  by (auto simp: Add_def dest!: trim_Inr simp: Add_body_fields)

lemma Add_length: "Add h n = Inr h' \<Longrightarrow> int (length (Bins h')) \<le> Maxbins h"
  by (auto simp: Add_def dest!: trim_Inr simp: Add_body_fields)

lemma Add_all_Maxbins: "Add_all h xs = Inr h' \<Longrightarrow> Maxbins h' = Maxbins h"
proof (induction xs arbitrary: h)
  case Nil
  then show ?case by simp
next
  case (Cons x xs)
  from Cons.prems obtain h1 where a: "Add h x = Inr h1" and b: "Add_all h1 xs = Inr h'"
    by (auto split: sum.splits)
  from Cons.IH [OF b] Add_Maxbins [OF a] show ?case by simp
qed

lemma Add_all_length:
  "Add_all h xs = Inr h' \<Longrightarrow> xs \<noteq> [] \<Longrightarrow> int (length (Bins h')) \<le> Maxbins h"
proof (induction xs arbitrary: h)
  case Nil
  then show ?case by simp
next
  case (Cons x xs)
  from Cons.prems(1) obtain h1 where a: "Add h x = Inr h1" and b: "Add_all h1 xs = Inr h'"
    by (auto split: sum.splits)
  show ?case
  proof (cases "xs = []")
    case True
    with a b Add_length [OF a] show ?thesis by simp
  next
    case False
    from Cons.IH [OF b False] Add_Maxbins [OF a] show ?thesis by simp
  qed
qed

text \<open>
  While the values seen are no more than \<open>Maxbins\<close>, no insertion compacts: every insertion
  returns, and the bins carry exactly the values seen, in strictly ascending order.
\<close>

lemma Add_few_values:
  assumes srt: "strictly_sorted (Bins h)" and nn: "NaN \<notin> Value ` set (Bins h)" and n: "n \<noteq> NaN"
    and c: "int (card (insert n (Value ` set (Bins h)))) \<le> Maxbins h"
  shows "\<exists>h'. Add h n = Inr h' \<and> strictly_sorted (Bins h')
     \<and> Value ` set (Bins h') = insert n (Value ` set (Bins h))"
proof -
  from Add_body_sorted [OF srt nn n]
  have s: "strictly_sorted (Bins (Add_body h n))"
    and v: "Value ` set (Bins (Add_body h n)) = insert n (Value ` set (Bins h))" by simp_all
  from strictly_sorted_length [OF s] v c
  have "int (length (Bins (Add_body h n))) \<le> Maxbins (Add_body h n)"
    by (simp add: Add_body_fields)
  from trim_within [OF this]
  have "Add h n = Inr ((Add_body h n)\<lparr>Total := sum_counts (Bins (Add_body h n))\<rparr>)"
    by (simp add: Add_def)
  with s v show ?thesis by simp
qed

lemma Add_all_few_values:
  assumes "strictly_sorted (Bins h)" and "NaN \<notin> Value ` set (Bins h)" and "NaN \<notin> set xs"
    and "int (card (Value ` set (Bins h) \<union> set xs)) \<le> Maxbins h"
  shows "\<exists>h'. Add_all h xs = Inr h' \<and> strictly_sorted (Bins h')
     \<and> Value ` set (Bins h') = Value ` set (Bins h) \<union> set xs"
  using assms
proof (induction xs arbitrary: h)
  case Nil
  then show ?case by simp
next
  case (Cons x xs)
  from Cons.prems(3) have x: "x \<noteq> NaN" and xs: "NaN \<notin> set xs" by auto
  have "card (insert x (Value ` set (Bins h))) \<le> card (Value ` set (Bins h) \<union> set (x # xs))"
    by (intro card_mono) auto
  with Cons.prems(4) have c: "int (card (insert x (Value ` set (Bins h)))) \<le> Maxbins h" by linarith
  from Add_few_values [OF Cons.prems(1,2) x c] obtain h1 where
    a: "Add h x = Inr h1" and s: "strictly_sorted (Bins h1)"
    and v: "Value ` set (Bins h1) = insert x (Value ` set (Bins h))" by blast
  from v Cons.prems(2) x have nn: "NaN \<notin> Value ` set (Bins h1)" by auto
  from v have e: "Value ` set (Bins h1) \<union> set xs = Value ` set (Bins h) \<union> set (x # xs)" by auto
  with Cons.prems(4) Add_Maxbins [OF a]
  have c1: "int (card (Value ` set (Bins h1) \<union> set xs)) \<le> Maxbins h1" by simp
  from Cons.IH [OF s nn xs c1] a e show ?case by simp
qed

lemma Add_all_returns_few_values:
  assumes "NaN \<notin> set xs" and "int (card (set xs)) \<le> n"
  shows "\<exists>h. Add_all (NewWeightedHistogram n alpha) xs = Inr h"
proof -
  let ?g = "NewWeightedHistogram n alpha"
  have a: "strictly_sorted (Bins ?g)" "NaN \<notin> Value ` set (Bins ?g)"
    by (simp_all add: NewWeightedHistogram_def strictly_sorted_def)
  have b: "int (card (Value ` set (Bins ?g) \<union> set xs)) \<le> Maxbins ?g"
    using assms(2) by (simp add: NewWeightedHistogram_def)
  from Add_all_few_values [OF a assms(1) b] show ?thesis by blast
qed

text \<open>
  C2 as stated: for every histogram constructed with \<open>maxBins > 0\<close> and every sequence of
  insertions, the bins are strictly ascending after each insertion. The constructor accepts
  any decay factor, and with one that is not positive the claim fails: with \<open>maxBins = 2\<close>
  and \<open>alpha = -3/2\<close> the samples \<open>2, 1, 0\<close> leave the bins \<open>3, 2\<close>, a negative weight
  having pushed the merged value past its neighbour; with \<open>alpha = 0\<close> the samples
  \<open>3, 2, 0\<close> merge two bins of weight \<open>0\<close> into a bin whose value is NaN. A sample
  may be NaN as well: it compares neither equal to nor smaller than any value, so with
  \<open>alpha = 1/2\<close> the samples NaN, NaN are appended as two bins. A decay factor in
  \<open>(0, 1]\<close> and finite samples do not save the claim either: with \<open>maxBins = 3\<close> and
  \<open>alpha = 2 ^ -600\<close> the samples \<open>4, 3.5, 2, 0\<close> decay the weight of the bin \<open>4\<close> twice,
  \<open>2 ^ -1200\<close> underflows to \<open>0\<close>, the weight of the bin \<open>3.5\<close> becomes \<open>0\<close> in the same
  way, and \<^verbatim>\<open>trim\<close> merges the two into a bin whose value is \<open>0/0\<close>, NaN.
\<close>

theorem Add_all_unsorted:
  "Add_all (NewWeightedHistogram 2 (Finite (- 3 / 2))) [Finite 2, Finite 1, Finite 0]
     = Inr \<lparr>Bins = [\<lparr>Value = Finite 3, Count = Finite (- 1 / 2)\<rparr>,
                    \<lparr>Value = Finite 2, Count = Finite (9 / 4)\<rparr>],
            Maxbins = 2, Total = Finite (7 / 4), Alpha = Finite (- 3 / 2)\<rparr>
   \<and> \<not> strictly_sorted [\<lparr>Value = Finite 3, Count = Finite (- 1 / 2)\<rparr>,
                         \<lparr>Value = Finite 2, Count = Finite (9 / 4)\<rparr>]
   \<and> Add_all (NewWeightedHistogram 2 (Finite 0)) [Finite 3, Finite 2, Finite 0]
     = Inr \<lparr>Bins = [\<lparr>Value = Finite 0, Count = Finite 1\<rparr>,
                    \<lparr>Value = NaN, Count = Finite 0\<rparr>],
            Maxbins = 2, Total = Finite 1, Alpha = Finite 0\<rparr>
   \<and> \<not> strictly_sorted [\<lparr>Value = Finite 0, Count = Finite 1\<rparr>,
                         \<lparr>Value = NaN, Count = Finite 0\<rparr>]
   \<and> Add_all (NewWeightedHistogram 2 (Finite (1 / 2))) [NaN, NaN]
     = Inr \<lparr>Bins = [\<lparr>Value = NaN, Count = Finite 1\<rparr>, \<lparr>Value = NaN, Count = Finite 1\<rparr>],
            Maxbins = 2, Total = Finite 2, Alpha = Finite (1 / 2)\<rparr>
   \<and> \<not> strictly_sorted [\<lparr>Value = NaN, Count = Finite 1\<rparr>, \<lparr>Value = NaN, Count = Finite 1\<rparr>]
   \<and> Add_all (NewWeightedHistogram 3 (Finite (1 / 2 ^ 600)))
        [Finite 4, Finite (7 / 2), Finite 2, Finite 0]
     = Inr \<lparr>Bins = [\<lparr>Value = Finite 0, Count = Finite 1\<rparr>,
                    \<lparr>Value = Finite 2, Count = Finite (1 / 2 ^ 600)\<rparr>,
                    \<lparr>Value = NaN, Count = Finite 0\<rparr>],
            Maxbins = 3, Total = Finite 1, Alpha = Finite (1 / 2 ^ 600)\<rparr>
   \<and> \<not> strictly_sorted [\<lparr>Value = Finite 0, Count = Finite 1\<rparr>,
                         \<lparr>Value = Finite 2, Count = Finite (1 / 2 ^ 600)\<rparr>,
                         \<lparr>Value = NaN, Count = Finite 0\<rparr>]"
  by (simp add: run_defs round_defs strictly_sorted_def)

text \<open>
  C2 amended: for every histogram constructed with \<open>maxBins > 0\<close>, whatever the decay
  factor, after each insertion that returns the bin list has at most \<open>maxBins\<close> bins. While
  the samples inserted so far contain no NaN and take at most \<open>maxBins\<close> distinct values,
  so that \<^verbatim>\<open>trim\<close> has merged nothing, the bin list is strictly ascending by value, no two
  bins share a value, and the values of the bins are exactly the values of the samples.
\<close>

theorem Add_all_bounded_sorted_few_values:
  assumes "Add_all (NewWeightedHistogram n alpha) xs = Inr h" and "0 < n"
  shows "int (length (Bins h)) \<le> n
     \<and> (NaN \<notin> set xs \<and> int (card (set xs)) \<le> n
          \<longrightarrow> strictly_sorted (Bins h) \<and> distinct (map Value (Bins h))
              \<and> Value ` set (Bins h) = set xs)"
proof -
  have l: "int (length (Bins h)) \<le> n"
  proof (cases "xs = []")
    case True
    with assms show ?thesis by (auto simp: NewWeightedHistogram_def)
  next
    case False
    from Add_all_length [OF assms(1) False] show ?thesis by (simp add: NewWeightedHistogram_def)
  qed
  have "strictly_sorted (Bins h) \<and> distinct (map Value (Bins h)) \<and> Value ` set (Bins h) = set xs"
    if nn: "NaN \<notin> set xs" and c: "int (card (set xs)) \<le> n"
  proof -
    let ?g = "NewWeightedHistogram n alpha"
    have a: "strictly_sorted (Bins ?g)" "NaN \<notin> Value ` set (Bins ?g)"
      by (simp_all add: NewWeightedHistogram_def strictly_sorted_def)
    have b: "int (card (Value ` set (Bins ?g) \<union> set xs)) \<le> Maxbins ?g"
      using c by (simp add: NewWeightedHistogram_def)
    from Add_all_few_values [OF a nn b] assms(1)
    have "strictly_sorted (Bins h)" and "Value ` set (Bins h) = set xs"
      by (auto simp: NewWeightedHistogram_def)
    then show ?thesis by (simp add: strictly_sorted_distinct)
  qed
  with l show ?thesis by blast
qed

theorem Add_all_bounded_sorted_few_values_witness:
  "Add_all (NewWeightedHistogram 2 (Finite (1 / 2))) [Finite 3, Finite 1, Finite 3]
     = Inr \<lparr>Bins = [\<lparr>Value = Finite 1, Count = Finite (1 / 2)\<rparr>,
                    \<lparr>Value = Finite 3, Count = Finite (3 / 2)\<rparr>],
            Maxbins = 2, Total = Finite 2, Alpha = Finite (1 / 2)\<rparr>
   \<and> int (length [\<lparr>Value = Finite 1, Count = Finite (1 / 2)\<rparr>,
                  \<lparr>Value = Finite 3, Count = Finite (3 / 2)\<rparr>]) \<le> 2
   \<and> strictly_sorted [\<lparr>Value = Finite 1, Count = Finite (1 / 2)\<rparr>,
                       \<lparr>Value = Finite 3, Count = Finite (3 / 2)\<rparr>]
   \<and> distinct (map Value [\<lparr>Value = Finite 1, Count = Finite (1 / 2)\<rparr>,
                           \<lparr>Value = Finite 3, Count = Finite (3 / 2)\<rparr>])"
proof -
  have r: "Add_all (NewWeightedHistogram 2 (Finite (1 / 2))) [Finite 3, Finite 1, Finite 3]
     = Inr \<lparr>Bins = [\<lparr>Value = Finite 1, Count = Finite (1 / 2)\<rparr>,
                    \<lparr>Value = Finite 3, Count = Finite (3 / 2)\<rparr>],
            Maxbins = 2, Total = Finite 2, Alpha = Finite (1 / 2)\<rparr>"
    by (simp add: run_defs round_defs)
  have n: "(0::int) < 2" by simp
  have c: "NaN \<notin> set [Finite 3, Finite 1, Finite 3]"
    "int (card (set [Finite 3, Finite 1, Finite (3::real)])) \<le> 2"
    by (simp_all add: card_insert_if)
  from Add_all_bounded_sorted_few_values [OF r n] c r show ?thesis by simp
qed

section \<open>The cached total\<close>

text \<open>
  C4 as stated: after every insertion the cached total equals the sum of the weights of the
  bins in the list. \<^verbatim>\<open>trim\<close> sums the weights before it merges, and a merge adds two
  weights with a rounding of its own: with \<open>maxBins = 2\<close> and \<open>alpha = 0.1\<close> the samples
  \<open>3, 4, 1\<close> leave the total \<open>(1 + 0.1) + 0.1 = 1.2000000000000002\<close> beside the two
  weights \<open>1\<close> and \<open>0.1 + 0.1 = 0.2\<close>, whose sum is \<open>1.2\<close>, the binary64 number just below.
\<close>

theorem Add_Total_differs_after_merge:
  "round64 (1 / 10) = Finite (3602879701896397 / 36028797018963968)
   \<and> Add_all (NewWeightedHistogram 2 (round64 (1 / 10))) [Finite 3, Finite 4, Finite 1]
     = Inr \<lparr>Bins = [\<lparr>Value = Finite 1, Count = Finite 1\<rparr>,
                    \<lparr>Value = Finite (7 / 2),
                     Count = Finite (3602879701896397 / 18014398509481984)\<rparr>],
            Maxbins = 2, Total = Finite (1351079888211149 / 1125899906842624),
            Alpha = Finite (3602879701896397 / 36028797018963968)\<rparr>
   \<and> sum_counts [\<lparr>Value = Finite 1, Count = Finite 1\<rparr>,
                  \<lparr>Value = Finite (7 / 2),
                   Count = Finite (3602879701896397 / 18014398509481984)\<rparr>]
     = Finite (5404319552844595 / 4503599627370496)
   \<and> \<not> feq (Finite (1351079888211149 / 1125899906842624))
            (Finite (5404319552844595 / 4503599627370496))"
  by (simp add: run_defs round_defs)

text \<open>
  C4 amended: after every insertion that returns, the cached total is the sum, added in
  float64 from the left, of the weights of the bins as they are after the insertion and the
  decay and before compaction. When the insertion leaves no more than \<open>maxBins\<close> bins,
  nothing is merged and the total is that sum of the weights of the bins in the list.
\<close>

theorem Add_Total_is_sum_before_compaction:
  assumes "Add h n = Inr h'"
  shows "Total h' = sum_counts (Bins (Add_body h n))
     \<and> (int (length (Bins (Add_body h n))) \<le> Maxbins h
          \<longrightarrow> Bins h' = Bins (Add_body h n) \<and> Total h' = sum_counts (Bins h'))"
proof -
  from assms have t: "trim (Add_body h n) = Inr h'" by (simp add: Add_def)
  from trim_Inr [OF t] have a: "Total h' = sum_counts (Bins (Add_body h n))" by simp
  have "Bins h' = Bins (Add_body h n)"
    if "int (length (Bins (Add_body h n))) \<le> Maxbins h"
  proof -
    from that have "int (length (Bins (Add_body h n))) \<le> Maxbins (Add_body h n)"
      by (simp add: Add_body_fields)
    from trim_within [OF this] t show ?thesis by auto
  qed
  with a show ?thesis by simp
qed

theorem Add_Total_is_sum_before_compaction_witness:
  "Add \<lparr>Bins = [\<lparr>Value = Finite 1, Count = Finite 1\<rparr>, \<lparr>Value = Finite 4, Count = Finite 1\<rparr>],
        Maxbins = 3, Total = Finite 2, Alpha = Finite (1 / 2)\<rparr> (Finite 3)
     = Inr \<lparr>Bins = [\<lparr>Value = Finite 1, Count = Finite (1 / 2)\<rparr>,
                    \<lparr>Value = Finite 3, Count = Finite 1\<rparr>,
                    \<lparr>Value = Finite 4, Count = Finite (1 / 2)\<rparr>],
            Maxbins = 3, Total = Finite 2, Alpha = Finite (1 / 2)\<rparr>
   \<and> Finite 2 = sum_counts [\<lparr>Value = Finite 1, Count = Finite (1 / 2)\<rparr>,
                                  \<lparr>Value = Finite 3, Count = Finite 1\<rparr>,
                                  \<lparr>Value = Finite 4, Count = Finite (1 / 2)\<rparr>]"
proof -
  let ?h = "\<lparr>Bins = [\<lparr>Value = Finite 1, Count = Finite 1\<rparr>, \<lparr>Value = Finite 4, Count = Finite 1\<rparr>],
        Maxbins = 3, Total = Finite 2, Alpha = Finite (1 / 2)\<rparr>"
  let ?h' = "\<lparr>Bins = [\<lparr>Value = Finite 1, Count = Finite (1 / 2)\<rparr>,
                    \<lparr>Value = Finite 3, Count = Finite 1\<rparr>,
                    \<lparr>Value = Finite 4, Count = Finite (1 / 2)\<rparr>],
            Maxbins = 3, Total = Finite 2, Alpha = Finite (1 / 2)\<rparr>"
  have r: "Add ?h (Finite 3) = Inr ?h'"
    by (simp add: run_defs round_defs)
  have l: "int (length (Bins (Add_body ?h (Finite 3)))) \<le> Maxbins ?h"
    by (simp add: Add_body_def scaleDown_def)
  from Add_Total_is_sum_before_compaction [OF r] l
  have "Total ?h' = sum_counts (Bins ?h')" by blast
  then have s: "Finite 2 = sum_counts [\<lparr>Value = Finite 1, Count = Finite (1 / 2)\<rparr>,
                                      \<lparr>Value = Finite 3, Count = Finite 1\<rparr>,
                                      \<lparr>Value = Finite 4, Count = Finite (1 / 2)\<rparr>]"
    by (simp only: WeightedHistogram.select_convs)
  from r s show ?thesis by (rule conjI)
qed

section \<open>Quantile\<close>

text \<open>
  The loop of \<^verbatim>\<open>Quantile\<close> returns the value of the first bin at which the running
  remainder is zero or below, and \<open>-1\<close> when there is none.
\<close>

lemma running_0: "running c (b # bs) 0 = fsub c (Count b)"
  by (simp add: running_def)

lemma running_Suc: "running c (b # bs) (Suc i) = running (fsub c (Count b)) bs i"
  by (simp add: running_def)

lemma Quantile_loop_none:
  "\<forall>i<length bs. \<not> fle (running c bs i) (Finite 0) \<Longrightarrow> Quantile_loop c bs = Finite (- 1)"
proof (induction bs arbitrary: c)
  case Nil
  show ?case by simp
next
  case (Cons b bs)
  from Cons.prems [rule_format, of 0] have n0: "\<not> fle (fsub c (Count b)) (Finite 0)"
    by (simp add: running_0)
  have "\<forall>i<length bs. \<not> fle (running (fsub c (Count b)) bs i) (Finite 0)"
  proof (intro allI impI)
    fix i assume "i < length bs"
    with Cons.prems [rule_format, of "Suc i"]
    show "\<not> fle (running (fsub c (Count b)) bs i) (Finite 0)"
      by (simp add: running_Suc)
  qed
  from Cons.IH [OF this] n0 show ?case by (simp add: Let_def)
qed

lemma Quantile_loop_first:
  "i < length bs \<Longrightarrow> fle (running c bs i) (Finite 0) \<Longrightarrow>
   \<forall>j<i. \<not> fle (running c bs j) (Finite 0) \<Longrightarrow>
   Quantile_loop c bs = Value (bs ! i)"
proof (induction bs arbitrary: c i)
  case Nil
  then show ?case by simp
next
  case (Cons b bs)
  show ?case
  proof (cases i)
    case 0
    with Cons.prems(2) show ?thesis by (simp add: running_0 Let_def)
  next
    case (Suc i')
    from Cons.prems(3) [rule_format, of 0] Suc have n0: "\<not> fle (fsub c (Count b)) (Finite 0)"
      by (simp add: running_0)
    have a: "i' < length bs" using Cons.prems(1) Suc by simp
    have b: "fle (running (fsub c (Count b)) bs i') (Finite 0)"
      using Cons.prems(2) Suc by (simp add: running_Suc)
    have c: "\<forall>j<i'. \<not> fle (running (fsub c (Count b)) bs j) (Finite 0)"
    proof (intro allI impI)
      fix j assume "j < i'"
      with Cons.prems(3) [rule_format, of "Suc j"] Suc
      show "\<not> fle (running (fsub c (Count b)) bs j) (Finite 0)"
        by (simp add: running_Suc)
    qed
    from Cons.IH [OF a b c] n0 Suc show ?thesis by (simp add: Let_def)
  qed
qed

lemma Quantile_never_drops:
  assumes "\<forall>i<length (Bins h). \<not> drops h q i"
  shows "Quantile h q = Finite (- 1)"
  using assms Quantile_loop_none [of "Bins h" "fmul q (Total h)"]
  by (simp add: Quantile_def drops_def remainder_def)

lemma Quantile_first_drop:
  assumes "i < length (Bins h)" "drops h q i" "\<forall>j<i. \<not> drops h q j"
  shows "Quantile h q = Value (Bins h ! i)"
  using assms Quantile_loop_first [of i "Bins h" "fmul q (Total h)"]
  by (simp add: Quantile_def drops_def remainder_def)

lemma least_drop:
  assumes "drops h q i"
  shows "\<exists>k\<le>i. drops h q k \<and> (\<forall>j<k. \<not> drops h q j)"
proof -
  define k where "k = (LEAST k. drops h q k)"
  have "drops h q k" unfolding k_def using assms by (rule LeastI)
  moreover have "k \<le> i" unfolding k_def using assms by (rule Least_le)
  moreover have "\<forall>j<k. \<not> drops h q j" unfolding k_def using not_less_Least by blast
  ultimately show ?thesis by blast
qed

text \<open>
  C5 as stated: \<^verbatim>\<open>Quantile(q)\<close> returns the smallest bin value whose cumulative weight
  reaches \<open>q * totalWeight\<close>, and the sentinel only when no prefix sum reaches it. The code
  does not add the weights up: it subtracts them from \<open>q * Total\<close> one after the other, and
  in float64 the two differ. With \<open>maxBins = 5\<close> and \<open>alpha = 0.2\<close> the samples
  \<open>6, 1, 4\<close> leave the weights \<open>0.2, 1, 0.04000000000000001\<close> and the total
  \<open>1.24\<close>; the sum of all three weights is the total, so the last prefix sum reaches
  \<open>1.0 * Total\<close>, yet the remainder after the last bin is \<open>2 ^ -55\<close>, above zero, and
  \<^verbatim>\<open>Quantile(1.0)\<close> returns \<open>-1\<close>.
\<close>

theorem Quantile_misses_reached_target:
  "round64 (2 / 10) = Finite (3602879701896397 / 18014398509481984)
   \<and> Add_all (NewWeightedHistogram 5 (round64 (2 / 10))) [Finite 6, Finite 1, Finite 4]
     = Inr \<lparr>Bins = [\<lparr>Value = Finite 1,
                     Count = Finite (3602879701896397 / 18014398509481984)\<rparr>,
                    \<lparr>Value = Finite 4, Count = Finite 1\<rparr>,
                    \<lparr>Value = Finite 6,
                     Count = Finite (1441151880758559 / 36028797018963968)\<rparr>],
            Maxbins = 5, Total = Finite (5584463537939415 / 4503599627370496),
            Alpha = Finite (3602879701896397 / 18014398509481984)\<rparr>
   \<and> reaches \<lparr>Bins = [\<lparr>Value = Finite 1,
                        Count = Finite (3602879701896397 / 18014398509481984)\<rparr>,
                       \<lparr>Value = Finite 4, Count = Finite 1\<rparr>,
                       \<lparr>Value = Finite 6,
                        Count = Finite (1441151880758559 / 36028797018963968)\<rparr>],
               Maxbins = 5, Total = Finite (5584463537939415 / 4503599627370496),
               Alpha = Finite (3602879701896397 / 18014398509481984)\<rparr> (Finite 1) 2
   \<and> remainder \<lparr>Bins = [\<lparr>Value = Finite 1,
                          Count = Finite (3602879701896397 / 18014398509481984)\<rparr>,
                         \<lparr>Value = Finite 4, Count = Finite 1\<rparr>,
                         \<lparr>Value = Finite 6,
                          Count = Finite (1441151880758559 / 36028797018963968)\<rparr>],
                 Maxbins = 5, Total = Finite (5584463537939415 / 4503599627370496),
                 Alpha = Finite (3602879701896397 / 18014398509481984)\<rparr> (Finite 1) 2
     = Finite (1 / 36028797018963968)
   \<and> Quantile \<lparr>Bins = [\<lparr>Value = Finite 1,
                         Count = Finite (3602879701896397 / 18014398509481984)\<rparr>,
                        \<lparr>Value = Finite 4, Count = Finite 1\<rparr>,
                        \<lparr>Value = Finite 6,
                         Count = Finite (1441151880758559 / 36028797018963968)\<rparr>],
                Maxbins = 5, Total = Finite (5584463537939415 / 4503599627370496),
                Alpha = Finite (3602879701896397 / 18014398509481984)\<rparr> (Finite 1)
     = Finite (- 1)"
  by (simp add: run_defs round_defs pred_defs)

text \<open>
  C5 amended: for every histogram and every \<open>q\<close>, \<^verbatim>\<open>Quantile(q)\<close> returns the value of the
  first bin, in list order, at which the running remainder is zero or below, the remainder
  being \<open>q * Total\<close> minus the weights of the bins up to and including that one, subtracted
  in float64 one after the other; it returns \<open>-1\<close> when the remainder is above zero (or
  NaN) at every bin. When the values are finite and ascending, the value returned is the
  smallest among the bins at which the remainder is zero or below.
\<close>

theorem Quantile_first_nonpositive_remainder:
  "if \<exists>i<length (Bins h). drops h q i
   then \<exists>i<length (Bins h). drops h q i \<and> (\<forall>j<i. \<not> drops h q j)
          \<and> Quantile h q = Value (Bins h ! i)
          \<and> (finite_values (Bins h) \<and> ascending (Bins h) \<longrightarrow>
               (\<forall>j<length (Bins h). drops h q j \<longrightarrow>
                  fle (Value (Bins h ! i)) (Value (Bins h ! j))))
   else Quantile h q = Finite (- 1)"
proof (cases "\<exists>i<length (Bins h). drops h q i")
  case False
  then have "\<forall>i<length (Bins h). \<not> drops h q i" by blast
  from Quantile_never_drops [OF this] False show ?thesis by auto
next
  case True
  then obtain i where i: "i < length (Bins h)" "drops h q i" by blast
  from least_drop [OF i(2)] obtain k where k: "k \<le> i" "drops h q k" "\<forall>j<k. \<not> drops h q j"
    by blast
  with i have kl: "k < length (Bins h)" by simp
  have q: "Quantile h q = Value (Bins h ! k)"
    by (rule Quantile_first_drop [OF kl k(2,3)])
  have "fle (Value (Bins h ! k)) (Value (Bins h ! j))"
    if fv: "finite_values (Bins h)" and asc: "ascending (Bins h)"
      and j: "j < length (Bins h)" "drops h q j" for j
  proof -
    from k(3) j(2) have "k \<le> j" by (meson not_le)
    show ?thesis
    proof (cases "k = j")
      case True
      with fv kl show ?thesis by (simp add: finite_values_def fle_refl_finite)
    next
      case False
      with \<open>k \<le> j\<close> have "k < j" by simp
      from asc have "sorted_wrt (\<lambda>a b. fle (Value a) (Value b)) (Bins h)"
        by (simp add: ascending_def)
      from sorted_wrt_nth_less [OF this \<open>k < j\<close> j(1)] show ?thesis .
    qed
  qed
  with kl k(2,3) q True show ?thesis by auto
qed

theorem Quantile_first_nonpositive_remainder_witness:
  "drops \<lparr>Bins = [\<lparr>Value = Finite 1, Count = Finite 1\<rparr>, \<lparr>Value = Finite 2, Count = Finite 2\<rparr>,
                \<lparr>Value = Finite 4, Count = Finite 1\<rparr>],
        Maxbins = 3, Total = Finite 4, Alpha = Finite (1 / 2)\<rparr> (Finite (1 / 2)) 1
   \<and> Quantile \<lparr>Bins = [\<lparr>Value = Finite 1, Count = Finite 1\<rparr>, \<lparr>Value = Finite 2, Count = Finite 2\<rparr>,
                \<lparr>Value = Finite 4, Count = Finite 1\<rparr>],
        Maxbins = 3, Total = Finite 4, Alpha = Finite (1 / 2)\<rparr> (Finite (1 / 2)) = Finite 2
   \<and> Quantile \<lparr>Bins = [\<lparr>Value = Finite 1, Count = Finite 1\<rparr>, \<lparr>Value = Finite 2, Count = Finite 2\<rparr>,
                \<lparr>Value = Finite 4, Count = Finite 1\<rparr>],
        Maxbins = 3, Total = Finite 4, Alpha = Finite (1 / 2)\<rparr> (Finite 2) = Finite (- 1)"
proof -
  let ?h = "\<lparr>Bins = [\<lparr>Value = Finite 1, Count = Finite 1\<rparr>, \<lparr>Value = Finite 2, Count = Finite 2\<rparr>,
                \<lparr>Value = Finite 4, Count = Finite 1\<rparr>],
        Maxbins = 3, Total = Finite 4, Alpha = Finite (1 / 2)\<rparr>"
  have s: "finite_values (Bins ?h) \<and> ascending (Bins ?h)"
    by (simp add: pred_defs fle_def)
  have r1: "drops ?h (Finite (1 / 2)) 1" "\<not> drops ?h (Finite (1 / 2)) 0"
    by (simp_all add: pred_defs fsub_def fle_def round_defs Let_def)
  have n2: "\<not> drops ?h (Finite 2) 0" "\<not> drops ?h (Finite 2) 1" "\<not> drops ?h (Finite 2) 2"
    by (simp_all add: pred_defs fsub_def fle_def round_defs Let_def)
  have r2: "\<not> (\<exists>i<length (Bins ?h). drops ?h (Finite 2) i)"
  proof
    assume "\<exists>i<length (Bins ?h). drops ?h (Finite 2) i"
    then obtain i where i: "i < length (Bins ?h)" "drops ?h (Finite 2) i" by blast
    from i(1) have "i < 3" by simp
    then consider "i = 0" | "i = 1" | "i = 2" by linarith
    then show False using n2 i(2) by cases simp_all
  qed
  have e: "\<exists>i<length (Bins ?h). drops ?h (Finite (1 / 2)) i"
    using r1(1) by (intro exI [of _ 1]) simp
  from Quantile_first_nonpositive_remainder [of ?h "Finite (1 / 2)"] e s
  obtain i where i: "i < length (Bins ?h)" "drops ?h (Finite (1 / 2)) i"
    "Quantile ?h (Finite (1 / 2)) = Value (Bins ?h ! i)"
    "\<forall>j<length (Bins ?h). drops ?h (Finite (1 / 2)) j \<longrightarrow> fle (Value (Bins ?h ! i)) (Value (Bins ?h ! j))"
    by auto
  from i(4) [rule_format, of 1] r1(1) have "fle (Value (Bins ?h ! i)) (Finite 2)" by simp
  with i(1,2) r1(2) have "i = 1"
    by (auto simp: less_Suc_eq fle_def numeral_3_eq_3)
  with i(3) have a: "Quantile ?h (Finite (1 / 2)) = Finite 2" by simp
  from Quantile_first_nonpositive_remainder [of ?h "Finite 2"] r2
  have b: "Quantile ?h (Finite 2) = Finite (- 1)" by auto
  from r1(1) a b show ?thesis by simp
qed

text \<open>
  C6 as stated: the sentinel differs from every value a bin can carry. The sentinel is
  \<open>-1\<close> and a sample may be \<open>-1\<close>: after inserting \<open>-1\<close>, \<^verbatim>\<open>Quantile(0.5)\<close> finds the
  bin and returns its value \<open>-1\<close>, and \<^verbatim>\<open>Quantile(2)\<close> finds no bin and returns \<open>-1\<close>.
  A merge can produce the value as well: with \<open>maxBins = 1\<close> and \<open>alpha = -1/2\<close> the
  samples \<open>3, 1\<close> leave one bin of value \<open>(1 * 1 + 3 * (-1/2)) / (1/2) = -1\<close>.
\<close>

theorem Quantile_sentinel_is_bin_value:
  "Add (NewWeightedHistogram 5 (Finite (1 / 2))) (Finite (- 1))
     = Inr \<lparr>Bins = [\<lparr>Value = Finite (- 1), Count = Finite 1\<rparr>],
            Maxbins = 5, Total = Finite 1, Alpha = Finite (1 / 2)\<rparr>
   \<and> reaches \<lparr>Bins = [\<lparr>Value = Finite (- 1), Count = Finite 1\<rparr>],
               Maxbins = 5, Total = Finite 1, Alpha = Finite (1 / 2)\<rparr> (Finite (1 / 2)) 0
   \<and> Quantile \<lparr>Bins = [\<lparr>Value = Finite (- 1), Count = Finite 1\<rparr>],
                Maxbins = 5, Total = Finite 1, Alpha = Finite (1 / 2)\<rparr> (Finite (1 / 2))
     = Finite (- 1)
   \<and> \<not> reaches \<lparr>Bins = [\<lparr>Value = Finite (- 1), Count = Finite 1\<rparr>],
                 Maxbins = 5, Total = Finite 1, Alpha = Finite (1 / 2)\<rparr> (Finite 2) 0
   \<and> Quantile \<lparr>Bins = [\<lparr>Value = Finite (- 1), Count = Finite 1\<rparr>],
                Maxbins = 5, Total = Finite 1, Alpha = Finite (1 / 2)\<rparr> (Finite 2)
     = Finite (- 1)
   \<and> Add_all (NewWeightedHistogram 1 (Finite (- 1 / 2))) [Finite 3, Finite 1]
     = Inr \<lparr>Bins = [\<lparr>Value = Finite (- 1), Count = Finite (1 / 2)\<rparr>],
            Maxbins = 1, Total = Finite (1 / 2), Alpha = Finite (- 1 / 2)\<rparr>"
  by (simp add: run_defs round_defs pred_defs)

text \<open>
  C6 amended: when the running remainder is above zero (or NaN) at every bin, the case in
  which the code finds no bin, \<^verbatim>\<open>Quantile\<close> returns the fixed number \<open>-1\<close>. In a state in
  which no bin carries the value \<open>-1\<close>, \<^verbatim>\<open>Quantile\<close> returns \<open>-1\<close> in that case and in
  no other.
\<close>

theorem Quantile_sentinel_iff_no_drop:
  assumes "\<forall>b\<in>set (Bins h). Value b \<noteq> Finite (- 1)"
  shows "Quantile h q = Finite (- 1) \<longleftrightarrow> \<not> (\<exists>i<length (Bins h). drops h q i)"
proof
  assume m: "Quantile h q = Finite (- 1)"
  show "\<not> (\<exists>i<length (Bins h). drops h q i)"
  proof
    assume "\<exists>i<length (Bins h). drops h q i"
    then obtain i where i: "i < length (Bins h)" "drops h q i" by blast
    from least_drop [OF i(2)] obtain k where k: "k \<le> i" "drops h q k" "\<forall>j<k. \<not> drops h q j"
      by blast
    with i have kl: "k < length (Bins h)" by simp
    from Quantile_first_drop [OF kl k(2,3)] m have "Value (Bins h ! k) = Finite (- 1)" by simp
    moreover from kl have "Bins h ! k \<in> set (Bins h)" by simp
    ultimately show False using assms by blast
  qed
next
  assume "\<not> (\<exists>i<length (Bins h). drops h q i)"
  then have "\<forall>i<length (Bins h). \<not> drops h q i" by blast
  then show "Quantile h q = Finite (- 1)" by (rule Quantile_never_drops)
qed

theorem Quantile_sentinel_iff_no_drop_witness:
  "Quantile \<lparr>Bins = [\<lparr>Value = Finite 1, Count = Finite 1\<rparr>, \<lparr>Value = Finite 2, Count = Finite 2\<rparr>],
             Maxbins = 3, Total = Finite 3, Alpha = Finite (1 / 2)\<rparr> (Finite 2) = Finite (- 1)
   \<and> \<not> (\<exists>i<length (Bins \<lparr>Bins = [\<lparr>Value = Finite 1, Count = Finite 1\<rparr>,
                                    \<lparr>Value = Finite 2, Count = Finite 2\<rparr>],
                            Maxbins = 3, Total = Finite 3, Alpha = Finite (1 / 2)\<rparr>).
          drops \<lparr>Bins = [\<lparr>Value = Finite 1, Count = Finite 1\<rparr>, \<lparr>Value = Finite 2, Count = Finite 2\<rparr>],
                 Maxbins = 3, Total = Finite 3, Alpha = Finite (1 / 2)\<rparr> (Finite 2) i)"
proof -
  let ?h = "\<lparr>Bins = [\<lparr>Value = Finite 1, Count = Finite 1\<rparr>, \<lparr>Value = Finite 2, Count = Finite 2\<rparr>],
             Maxbins = 3, Total = Finite 3, Alpha = Finite (1 / 2)\<rparr>"
  have f: "\<forall>b\<in>set (Bins ?h). Value b \<noteq> Finite (- 1)" by simp
  have q: "Quantile ?h (Finite 2) = Finite (- 1)"
    by (simp add: run_defs round_defs)
  from Quantile_sentinel_iff_no_drop [OF f, of "Finite 2"] q show ?thesis by simp
qed

text \<open>
  C10 as stated: with a non-empty histogram of positive total weight and \<open>q \<le> 0\<close>,
  \<^verbatim>\<open>Quantile(q)\<close> is the value of the first bin. A negative decay factor makes weights
  negative: with \<open>alpha = -1\<close> the samples \<open>1, 2, 2\<close> give the bins \<open>(1, -1), (2, 2)\<close> of
  total weight \<open>1\<close>, and \<^verbatim>\<open>Quantile(0)\<close> is \<open>2\<close>, the value of the second bin.
\<close>

theorem Quantile_zero_skips_negative_first:
  "Add_all (NewWeightedHistogram 5 (Finite (- 1))) [Finite 1, Finite 2, Finite 2]
     = Inr \<lparr>Bins = [\<lparr>Value = Finite 1, Count = Finite (- 1)\<rparr>,
                    \<lparr>Value = Finite 2, Count = Finite 2\<rparr>],
            Maxbins = 5, Total = Finite 1, Alpha = Finite (- 1)\<rparr>
   \<and> Quantile \<lparr>Bins = [\<lparr>Value = Finite 1, Count = Finite (- 1)\<rparr>,
                       \<lparr>Value = Finite 2, Count = Finite 2\<rparr>],
                Maxbins = 5, Total = Finite 1, Alpha = Finite (- 1)\<rparr> (Finite 0) = Finite 2"
  by (simp add: run_defs round_defs)

text \<open>
  C10 amended: for every non-empty histogram with finite, strictly positive total weight
  whose first bin has a non-negative weight, and every \<open>q \<le> 0\<close>, \<^verbatim>\<open>Quantile(q)\<close> is the
  value of the first bin.
\<close>

theorem Quantile_nonpositive_first:
  assumes "Bins h \<noteq> []" and "is_finite (Total h)" and "flt (Finite 0) (Total h)"
    and "fle q (Finite 0)" and "fle (Finite 0) (Count (hd (Bins h)))"
  shows "Quantile h q = Value (hd (Bins h))"
proof -
  from assms(1) obtain b bs where bs: "Bins h = b # bs" by (cases "Bins h") auto
  from assms(2,3) obtain t where t: "Total h = Finite t" "0 < t" by (auto simp: is_finite_conv)
  from assms(5) bs have c0: "fle (Finite 0) (Count b)" by simp
  have "fle (fsub (fmul q (Finite t)) (Count b)) (Finite 0)"
  proof (cases q)
    case (Finite r)
    with assms(4) have "r \<le> 0" by (simp add: fle_Finite)
    with t(2) have rt: "r * t \<le> 0" by (simp add: mult_nonpos_nonneg)
    from round64_nonpos [OF rt]
    consider "round64 (r * t) = NInf" | p where "p \<le> 0" "round64 (r * t) = Finite p" by blast
    then show ?thesis
    proof cases
      case 1
      with Finite c0 show ?thesis
        by (cases "Count b") (simp_all add: fsub_def fle_def)
    next
      case 2
      show ?thesis
      proof (cases "Count b")
        case w: (Finite w)
        with c0 have "0 \<le> w" by (simp add: fle_Finite)
        with 2(1) have "p + - w \<le> 0" by linarith
        from round64_nonpos [OF this] w Finite 2(2) show ?thesis
          by (auto simp: fsub_def fle_def)
      next
        case PInf
        with Finite 2(2) show ?thesis by (simp add: fle_def fsub_def)
      next
        case NInf
        with c0 show ?thesis by (simp add: fle_def)
      next
        case NaN
        with c0 show ?thesis by (simp add: fle_def)
      qed
    qed
  next
    case NInf
    with c0 t(2) show ?thesis
      by (cases "Count b") (simp_all add: fsub_def fle_def inf_of_sign_def)
  next
    case PInf
    with assms(4) show ?thesis by (simp add: fle_def)
  next
    case NaN
    with assms(4) show ?thesis by (simp add: fle_def)
  qed
  with bs t show ?thesis by (simp add: Quantile_def Let_def)
qed

theorem Quantile_nonpositive_first_witness:
  "Quantile \<lparr>Bins = [\<lparr>Value = Finite 1, Count = Finite 1\<rparr>, \<lparr>Value = Finite 2, Count = Finite 2\<rparr>],
             Maxbins = 3, Total = Finite 3, Alpha = Finite (1 / 2)\<rparr> (Finite (- 1 / 2)) = Finite 1
   \<and> Quantile \<lparr>Bins = [\<lparr>Value = Finite 1, Count = Finite 1\<rparr>, \<lparr>Value = Finite 2, Count = Finite 2\<rparr>],
             Maxbins = 3, Total = Finite 3, Alpha = Finite (1 / 2)\<rparr> (Finite 0) = Finite 1"
proof -
  let ?h = "\<lparr>Bins = [\<lparr>Value = Finite 1, Count = Finite 1\<rparr>, \<lparr>Value = Finite 2, Count = Finite 2\<rparr>],
             Maxbins = 3, Total = Finite 3, Alpha = Finite (1 / 2)\<rparr>"
  have f: "Bins ?h \<noteq> []" "is_finite (Total ?h)" "flt (Finite 0) (Total ?h)"
    by (simp_all add: is_finite_def)
  have q: "fle (Finite (- 1 / 2)) (Finite 0)" "fle (Finite 0) (Finite 0)"
    by (simp_all add: fle_def)
  have c: "fle (Finite 0) (Count (hd (Bins ?h)))" by (simp add: fle_def)
  from Quantile_nonpositive_first [OF f q(1) c] Quantile_nonpositive_first [OF f q(2) c]
  show ?thesis by simp
qed

section \<open>CDF at the largest value\<close>






section \<open>Queries on the empty histogram\<close>

text \<open>
  C7: with total weight \<open>0\<close> \<^verbatim>\<open>Mean\<close> and \<^verbatim>\<open>Variance\<close> return exactly \<open>0\<close>, and on
  the empty histogram (no bins, total weight \<open>0\<close>) \<^verbatim>\<open>CDF\<close> at any \<open>x\<close> is the NaN of
  dividing \<open>0\<close> by \<open>0\<close>.
\<close>

theorem empty_histogram_queries:
  assumes "Total h = Finite 0"
  shows "Mean h = Finite 0 \<and> Variance h = Finite 0 \<and> (Bins h = [] \<longrightarrow> CDF h x = NaN)"
  using assms by (simp add: Mean_def Variance_def CDF_def inf_of_sign_def)

theorem empty_histogram_queries_witness:
  "Bins (NewWeightedHistogram 5 (Finite (1 / 2))) = []
   \<and> Total (NewWeightedHistogram 5 (Finite (1 / 2))) = Finite 0
   \<and> Mean (NewWeightedHistogram 5 (Finite (1 / 2))) = Finite 0
   \<and> Variance (NewWeightedHistogram 5 (Finite (1 / 2))) = Finite 0
   \<and> CDF (NewWeightedHistogram 5 (Finite (1 / 2))) (Finite 3) = NaN"
proof -
  have t: "Total (NewWeightedHistogram 5 (Finite (1 / 2))) = Finite 0"
    and b: "Bins (NewWeightedHistogram 5 (Finite (1 / 2))) = []"
    by (simp_all add: NewWeightedHistogram_def)
  from empty_histogram_queries [OF t, of "Finite 3"] t b show ?thesis by simp
qed

section \<open>Construction\<close>

text \<open>
  C8 as stated: construction with \<open>maxBins \<le> 0\<close> or a decay factor outside \<open>(0,1]\<close> is
  rejected. The constructor checks nothing: \<open>maxBins = 0\<close> with \<open>alpha = 2\<close> yields a
  histogram that answers queries, and \<open>maxBins = 3\<close> with \<open>alpha = 2\<close> one that accepts
  samples.
\<close>

theorem NewWeightedHistogram_accepts_invalid:
  "NewWeightedHistogram 0 (Finite 2)
     = \<lparr>Bins = [], Maxbins = 0, Total = Finite 0, Alpha = Finite 2\<rparr>
   \<and> Mean (NewWeightedHistogram 0 (Finite 2)) = Finite 0
   \<and> Quantile (NewWeightedHistogram 0 (Finite 2)) (Finite (1 / 2)) = Finite (- 1)
   \<and> Add (NewWeightedHistogram 3 (Finite 2)) (Finite 1)
     = Inr \<lparr>Bins = [\<lparr>Value = Finite 1, Count = Finite 1\<rparr>],
            Maxbins = 3, Total = Finite 1, Alpha = Finite 2\<rparr>"
  by (simp add: run_defs round_defs)

text \<open>
  C8 amended: \<^verbatim>\<open>NewWeightedHistogram\<close> performs no validation. For every \<open>n\<close> and
  \<open>alpha\<close> it returns the histogram with no bins, \<open>Maxbins = n\<close>, \<open>Total = 0\<close> and
  \<open>Alpha = alpha\<close>. With \<open>n \<le> 0\<close> the failure comes at the first \<^verbatim>\<open>Add\<close>, which panics
  in \<^verbatim>\<open>trim\<close>; with \<open>n > 0\<close> the first \<^verbatim>\<open>Add\<close> succeeds whatever \<open>alpha\<close> is.
\<close>

theorem NewWeightedHistogram_no_validation:
  "Bins (NewWeightedHistogram n alpha) = []
   \<and> Maxbins (NewWeightedHistogram n alpha) = n
   \<and> Total (NewWeightedHistogram n alpha) = Finite 0
   \<and> Alpha (NewWeightedHistogram n alpha) = alpha
   \<and> (n \<le> 0 \<longrightarrow> Add (NewWeightedHistogram n alpha) x = Inl IndexOutOfRange)
   \<and> (0 < n \<longrightarrow> Add (NewWeightedHistogram n alpha) x
         = Inr \<lparr>Bins = [\<lparr>Value = x, Count = Finite 1\<rparr>],
                Maxbins = n, Total = Finite 1, Alpha = alpha\<rparr>)"
  by (simp add: run_defs round64_1)

theorem NewWeightedHistogram_no_validation_witness:
  "Add (NewWeightedHistogram (- 1) NaN) (Finite 7) = Inl IndexOutOfRange
   \<and> Add (NewWeightedHistogram 4 (Finite 0)) (Finite 7)
     = Inr \<lparr>Bins = [\<lparr>Value = Finite 7, Count = Finite 1\<rparr>],
            Maxbins = 4, Total = Finite 1, Alpha = Finite 0\<rparr>"
  using NewWeightedHistogram_no_validation [of "- 1" NaN "Finite 7"]
        NewWeightedHistogram_no_validation [of 4 "Finite 0" "Finite 7"]
  by simp

end
